theory Spec2Isabelle
  imports Main "HOL-Library.Sublist"
begin

section \<open>Strings and the shell-escaping function\<close>

text \<open>
  JavaScript strings are modelled as \<open>string\<close> (lists of characters). The two characters
  that cannot be written inside an Isabelle string literal get a name each.
\<close>

abbreviation SQ :: char where "SQ \<equiv> CHR 0x27"
abbreviation BS :: char where "BS \<equiv> CHR 0x5C"

text \<open>
  \<^verbatim>\<open>arg.replace(/'/g, r)\<close>: a global replace whose pattern is one literal character. The
  scan runs left to right and the replacement text is not scanned again.
\<close>

fun replace_all_char :: "char \<Rightarrow> string \<Rightarrow> string \<Rightarrow> string" where
  "replace_all_char c r [] = []"
| "replace_all_char c r (x # xs) =
     (if x = c then r @ replace_all_char c r xs else x # replace_all_char c r xs)"

text \<open>
  \<^verbatim>\<open>function escapeShellArg(arg) { return `'${arg.replace(/'/g, "'\\''")}'`; }\<close>
  The JavaScript literal \<^verbatim>\<open>"'\\''"\<close> is the four characters quote, backslash, quote, quote.
\<close>

definition escapeShellArg :: "string \<Rightarrow> string" where
  "escapeShellArg arg = [SQ] @ replace_all_char SQ [SQ, BS, SQ, SQ] arg @ [SQ]"

text \<open>\<^verbatim>\<open>Array.prototype.join(sep)\<close> on an array of strings.\<close>

fun join :: "string \<Rightarrow> string list \<Rightarrow> string" where
  "join sep [] = []"
| "join sep [x] = x"
| "join sep (x # y # ys) = x @ sep @ join sep (y # ys)"

section \<open>Regular expressions\<close>

text \<open>
  Every pattern of the source is anchored (\<^verbatim>\<open>/^...$/\<close>), so \<^verbatim>\<open>regex.test(s)\<close> asks whether
  the whole of \<open>s\<close> is a word of the pattern. Patterns are values of \<open>rexp\<close>; \<open>regex_test\<close>
  decides membership with Brzozowski derivatives.
\<close>

datatype rexp = Empty | Eps | Atom "char list" | Alt rexp rexp | Seq rexp rexp | Star rexp

fun nullable :: "rexp \<Rightarrow> bool" where
  "nullable Empty = False"
| "nullable Eps = True"
| "nullable (Atom cs) = False"
| "nullable (Alt r s) = (nullable r \<or> nullable s)"
| "nullable (Seq r s) = (nullable r \<and> nullable s)"
| "nullable (Star r) = True"

fun deriv :: "char \<Rightarrow> rexp \<Rightarrow> rexp" where
  "deriv c Empty = Empty"
| "deriv c Eps = Empty"
| "deriv c (Atom cs) = (if c \<in> set cs then Eps else Empty)"
| "deriv c (Alt r s) = Alt (deriv c r) (deriv c s)"
| "deriv c (Seq r s) =
     (if nullable r then Alt (Seq (deriv c r) s) (deriv c s) else Seq (deriv c r) s)"
| "deriv c (Star r) = Seq (deriv c r) (Star r)"

fun regex_test :: "rexp \<Rightarrow> string \<Rightarrow> bool" where
  "regex_test r [] = nullable r"
| "regex_test r (c # cs) = regex_test (deriv c r) cs"

text \<open>The pattern operators of the source, in terms of the six constructors.\<close>

fun Seqs :: "rexp list \<Rightarrow> rexp" where
  "Seqs [] = Eps"
| "Seqs (r # rs) = Seq r (Seqs rs)"

fun Alts :: "rexp list \<Rightarrow> rexp" where
  "Alts [] = Empty"
| "Alts (r # rs) = Alt r (Alts rs)"

definition Opt :: "rexp \<Rightarrow> rexp" where
  "Opt r = Alt Eps r"

definition Plus :: "rexp \<Rightarrow> rexp" where
  "Plus r = Seq r (Star r)"

definition ch :: "char \<Rightarrow> rexp" where
  "ch c = Atom [c]"

definition lit :: "string \<Rightarrow> rexp" where
  "lit s = Seqs (map ch s)"

definition lower_chars :: "char list" where
  "lower_chars = ''abcdefghijklmnopqrstuvwxyz''"

definition upper_chars :: "char list" where
  "upper_chars = ''ABCDEFGHIJKLMNOPQRSTUVWXYZ''"

definition digit_chars :: "char list" where
  "digit_chars = ''0123456789''"

text \<open>\<^verbatim>\<open>\d\<close>\<close>

definition digit :: rexp where
  "digit = Atom digit_chars"

text \<open>
  The \<^verbatim>\<open>i\<close> flag: a letter of the pattern matches itself in either case. Without the
  \<^verbatim>\<open>u\<close> flag no character outside ASCII folds to an ASCII letter.
\<close>

definition other_case :: "char \<Rightarrow> char" where
  "other_case c =
     (case map_of (zip (lower_chars @ upper_chars) (upper_chars @ lower_chars)) c of
        None \<Rightarrow> c | Some d \<Rightarrow> d)"

definition ch_ci :: "char \<Rightarrow> rexp" where
  "ch_ci c = Atom [c, other_case c]"

definition lit_ci :: "string \<Rightarrow> rexp" where
  "lit_ci s = Seqs (map ch_ci s)"

section \<open>Date shorthands\<close>

datatype error =
    InvalidArguments string   \<comment> \<open>\<^verbatim>\<open>Invalid arguments for <tool>: ...\<close>\<close>
  | InvalidDateFormat string  \<comment> \<open>\<^verbatim>\<open>Invalid date format: "<value>". Supported formats: ...\<close>\<close>
  | UnknownTool string        \<comment> \<open>\<^verbatim>\<open>Unknown tool: <name>\<close>\<close>

text \<open>\<^verbatim>\<open>/^\d{4}-\d{2}-\d{2}(T\d{2}:\d{2}:\d{2}(\.\d{3})?(Z|[+-]\d{2}:\d{2})?)?$/\<close>\<close>

definition isoRegex :: rexp where
  "isoRegex =
     Seqs [digit, digit, digit, digit, ch CHR ''-'', digit, digit, ch CHR ''-'', digit, digit,
       Opt (Seqs [ch CHR ''T'', digit, digit, ch CHR '':'', digit, digit, ch CHR '':'',
                  digit, digit,
                  Opt (Seqs [ch CHR ''.'', digit, digit, digit]),
                  Opt (Alt (ch CHR ''Z'')
                           (Seqs [Atom ''+-'', digit, digit, ch CHR '':'', digit, digit]))])]"

text \<open>\<^verbatim>\<open>/^[+-]\d+[dwmqy]$/\<close>\<close>

definition relativeRegex :: rexp where
  "relativeRegex = Seqs [Atom ''+-'', Plus digit, Atom ''dwmqy'']"

text \<open>\<^verbatim>\<open>/^(eom|eoq|eoy|som|soq|soy|today|tomorrow|yesterday|now)$/i\<close>\<close>

definition specialDates :: rexp where
  "specialDates =
     Alts (map lit_ci [''eom'', ''eoq'', ''eoy'', ''som'', ''soq'', ''soy'', ''today'',
                       ''tomorrow'', ''yesterday'', ''now''])"

text \<open>\<^verbatim>\<open>/^(monday|tuesday|wednesday|thursday|friday|saturday|sunday)$/i\<close>\<close>

definition dayNames :: rexp where
  "dayNames =
     Alts (map lit_ci [''monday'', ''tuesday'', ''wednesday'', ''thursday'', ''friday'',
                       ''saturday'', ''sunday''])"

text \<open>\<^verbatim>\<open>/^(january|february|march|april|may|june|july|august|september|october|november|december)$/i\<close>\<close>

definition monthNames :: rexp where
  "monthNames =
     Alts (map lit_ci [''january'', ''february'', ''march'', ''april'', ''may'', ''june'',
                       ''july'', ''august'', ''september'', ''october'', ''november'',
                       ''december''])"

text \<open>\<^verbatim>\<open>/^\d{1,2}(st|nd|rd|th)$/i\<close>\<close>

definition ordinalRegex :: rexp where
  "ordinalRegex =
     Seqs [digit, Opt digit, Alts (map lit_ci [''st'', ''nd'', ''rd'', ''th''])]"

text \<open>
  \<^verbatim>\<open>parseFlexibleDate\<close> returns its argument when one of the six patterns matches and
  throws otherwise.
\<close>

definition parseFlexibleDate :: "string \<Rightarrow> error + string" where
  "parseFlexibleDate dateStr =
     (if regex_test isoRegex dateStr \<or>
         regex_test relativeRegex dateStr \<or>
         regex_test specialDates dateStr \<or>
         regex_test dayNames dateStr \<or>
         regex_test monthNames dateStr \<or>
         regex_test ordinalRegex dateStr
      then Inr dateStr
      else Inl (InvalidDateFormat dateStr))"

section \<open>Request values and schemas\<close>

text \<open>
  The raw arguments of a call are a JSON value, or \<^verbatim>\<open>undefined\<close> when the request carries
  none. No schema of the source accepts a number, so numbers are kept as integers.
  An object is the list of its properties; a property that is not there reads as
  \<^verbatim>\<open>undefined\<close>.
\<close>

datatype jsval =
    JUndefined | JNull | JBool bool | JNum int | JStr string
  | JArr "jsval list" | JObj "(string \<times> jsval) list"

fun get_prop :: "jsval \<Rightarrow> string \<Rightarrow> jsval" where
  "get_prop (JObj kvs) k = (case map_of kvs k of None \<Rightarrow> JUndefined | Some v \<Rightarrow> v)"
| "get_prop _ k = JUndefined"

text \<open>The condition of \<^verbatim>\<open>if (v)\<close>.\<close>

fun truthy :: "jsval \<Rightarrow> bool" where
  "truthy JUndefined = False"
| "truthy JNull = False"
| "truthy (JBool b) = b"
| "truthy (JNum n) = (n \<noteq> 0)"
| "truthy (JStr s) = (s \<noteq> [])"
| "truthy (JArr xs) = True"
| "truthy (JObj kvs) = True"

text \<open>
  The text of a string value and the elements of an array value. The handlers read them
  from parsed data only, where the schema has fixed the type; the other equations are
  never reached there.
\<close>

fun str_of :: "jsval \<Rightarrow> string" where
  "str_of (JStr s) = s"
| "str_of _ = []"

fun elems :: "jsval \<Rightarrow> jsval list" where
  "elems (JArr xs) = xs"
| "elems _ = []"

text \<open>
  The fragment of zod the source uses: \<^verbatim>\<open>z.string()\<close> with \<^verbatim>\<open>.min(n)\<close> and
  \<^verbatim>\<open>.regex(r)\<close> checks, \<^verbatim>\<open>z.enum([...])\<close>, \<^verbatim>\<open>z.boolean()\<close>, \<^verbatim>\<open>z.array(e)\<close>,
  \<^verbatim>\<open>.optional()\<close>, and \<^verbatim>\<open>z.object({...})\<close> of such fields.
\<close>

datatype zcheck = ZMin nat | ZRegex rexp

datatype zschema =
    ZString "zcheck list" | ZEnum "string list" | ZBoolean | ZArray zschema | ZOptional zschema

type_synonym zobject = "(string \<times> zschema) list"

fun check_ok :: "zcheck \<Rightarrow> string \<Rightarrow> bool" where
  "check_ok (ZMin n) s = (n \<le> length s)"
| "check_ok (ZRegex r) s = regex_test r s"

text \<open>
  \<open>None\<close> is a failed parse. None of the schemas transforms a value, so a successful
  parse returns the value it was given.
\<close>

fun safeParse_value :: "zschema \<Rightarrow> jsval \<Rightarrow> jsval option" where
  "safeParse_value (ZString cs) (JStr s) =
     (if list_all (\<lambda>c. check_ok c s) cs then Some (JStr s) else None)"
| "safeParse_value (ZEnum vs) (JStr s) = (if s \<in> set vs then Some (JStr s) else None)"
| "safeParse_value ZBoolean (JBool b) = Some (JBool b)"
| "safeParse_value (ZArray e) (JArr xs) =
     map_option JArr (those (map (safeParse_value e) xs))"
| "safeParse_value (ZOptional e) v =
     (if v = JUndefined then Some JUndefined else safeParse_value e v)"
| "safeParse_value _ _ = None"

text \<open>
  \<^verbatim>\<open>z.object(shape).safeParse(args)\<close>: the argument must be an object; every field of the
  shape is parsed from the property of its name; properties outside the shape are dropped.
\<close>

definition safeParse_field :: "jsval \<Rightarrow> string \<times> zschema \<Rightarrow> (string \<times> jsval) option" where
  "safeParse_field args f = map_option (Pair (fst f)) (safeParse_value (snd f) (get_prop args (fst f)))"

fun safeParse :: "zobject \<Rightarrow> jsval \<Rightarrow> jsval option" where
  "safeParse shape (JObj kvs) = map_option JObj (those (map (safeParse_field (JObj kvs)) shape))"
| "safeParse shape _ = None"

subsection \<open>The request schemas\<close>

text \<open>\<^verbatim>\<open>/^[a-zA-Z0-9._-]+$/\<close> and \<^verbatim>\<open>/^[@a-z0-9_-]+$/\<close>\<close>

definition projectPattern :: rexp where
  "projectPattern = Plus (Atom (lower_chars @ upper_chars @ digit_chars @ ''._-''))"

definition tagPattern :: rexp where
  "tagPattern = Plus (Atom (''@'' @ lower_chars @ digit_chars @ ''_-''))"

definition zProject :: zschema where
  "zProject = ZOptional (ZString [ZRegex projectPattern])"

definition zTags :: zschema where
  "zTags = ZOptional (ZArray (ZString [ZRegex tagPattern]))"

definition zPriority :: zschema where
  "zPriority = ZOptional (ZEnum [''H'', ''M'', ''L''])"

definition zStatus :: zschema where
  "zStatus = ZOptional (ZEnum [''pending'', ''completed'', ''deleted'', ''waiting'', ''recurring''])"

definition listPendingTasksRequest :: zobject where
  "listPendingTasksRequest = [(''project'', zProject), (''tags'', zTags)]"

definition markTaskDoneRequest :: zobject where
  "markTaskDoneRequest = [(''identifier'', ZString [])]"

definition addTaskRequest :: zobject where
  "addTaskRequest =
     [(''description'', ZString []),
      (''due'', ZOptional (ZString [])),
      (''priority'', zPriority),
      (''project'', zProject),
      (''tags'', zTags)]"

definition modifyFields :: zobject where
  "modifyFields =
     [(''description'', ZOptional (ZString [ZMin 1])),
      (''due'', ZOptional (ZString [ZMin 1])),
      (''start'', ZOptional (ZString [ZMin 1])),
      (''stop_task'', ZOptional ZBoolean),
      (''wait'', ZOptional (ZString [ZMin 1])),
      (''until'', ZOptional (ZString [ZMin 1])),
      (''scheduled'', ZOptional (ZString [ZMin 1])),
      (''priority'', zPriority),
      (''project'', zProject),
      (''depends'', ZOptional (ZArray (ZString [ZMin 1]))),
      (''tags'', zTags),
      (''tags_remove'', zTags),
      (''clear_fields'',
         ZOptional (ZArray (ZEnum [''due'', ''start'', ''wait'', ''until'', ''scheduled'',
                                   ''priority'', ''project'', ''depends''])))]"

definition modifyTaskRequest :: zobject where
  "modifyTaskRequest = (''identifier'', ZString [ZMin 1]) # modifyFields"

definition modifyTasksBulkRequest :: zobject where
  "modifyTasksBulkRequest = (''filter'', ZString [ZMin 1]) # modifyFields"

definition getTaskInfoRequest :: zobject where
  "getTaskInfoRequest = [(''identifier'', ZString [])]"

definition countTasksRequest :: zobject where
  "countTasksRequest =
     [(''status'', zStatus), (''project'', zProject), (''tags'', zTags), (''priority'', zPriority)]"

definition listTasksFilteredRequest :: zobject where
  "listTasksFilteredRequest =
     [(''status'', zStatus), (''project'', zProject), (''tags'', zTags), (''priority'', zPriority),
      (''report'', ZOptional (ZString []))]"

definition deleteTaskRequest :: zobject where
  "deleteTaskRequest = [(''identifier'', ZString [])]"

definition annotateTaskRequest :: zobject where
  "annotateTaskRequest = [(''identifier'', ZString []), (''annotation'', ZString [])]"

definition appendTaskRequest :: zobject where
  "appendTaskRequest = [(''identifier'', ZString []), (''text'', ZString [])]"

definition prependTaskRequest :: zobject where
  "prependTaskRequest = [(''identifier'', ZString []), (''text'', ZString [])]"

definition duplicateTaskRequest :: zobject where
  "duplicateTaskRequest = [(''identifier'', ZString [])]"

definition undoLastRequest :: zobject where
  "undoLastRequest = []"

definition builtinReportRequest :: zobject where
  "builtinReportRequest =
     [(''report'', ZEnum [''list'', ''all'', ''active'', ''completed'', ''blocked'', ''overdue'',
                          ''ready'', ''recurring'']),
      (''project'', zProject), (''tags'', zTags), (''priority'', zPriority)]"

definition visualizationReportRequest :: zobject where
  "visualizationReportRequest =
     [(''report'', ZEnum [''burndown'', ''calendar'', ''history'', ''summary'', ''timesheet'']),
      (''project'', zProject), (''tags'', zTags)]"

definition customReportRequest :: zobject where
  "customReportRequest =
     [(''report'', ZString []),
      (''columns'', ZOptional (ZArray (ZString []))),
      (''filter'', ZOptional (ZString []))]"

section \<open>The argument builder\<close>

text \<open>
  The fragments the builders repeat:
  \<^verbatim>\<open>if (data.f) { task_args.push(`f:${data.f}`); }\<close> and
  \<^verbatim>\<open>if (data.tags) { for (let tag of data.tags) { task_args.push(`+${tag}`); } }\<close>.
\<close>

definition field_token :: "jsval \<Rightarrow> string \<Rightarrow> string list" where
  "field_token data f =
     (if truthy (get_prop data f) then [f @ '':'' @ str_of (get_prop data f)] else [])"

definition tag_tokens :: "jsval \<Rightarrow> string \<Rightarrow> string \<Rightarrow> string list" where
  "tag_tokens data f sign =
     (if truthy (get_prop data f)
      then map (\<lambda>tag. sign @ str_of tag) (elems (get_prop data f)) else [])"

text \<open>
  \<^verbatim>\<open>if (data.f) { parseFlexibleDate(data.f); task_args.push(`f:${data.f}`); }\<close>:
  the date is validated, and the token carries the field's own text.
\<close>

definition date_token :: "jsval \<Rightarrow> string \<Rightarrow> error + string list" where
  "date_token data f =
     (if truthy (get_prop data f)
      then (case parseFlexibleDate (str_of (get_prop data f)) of
              Inl e \<Rightarrow> Inl e
            | Inr _ \<Rightarrow> Inr [f @ '':'' @ str_of (get_prop data f)])
      else Inr [])"

text \<open>
  \<^verbatim>\<open>buildTaskModifyArgs\<close> pushes its tokens in the order of the source; the first date that
  does not parse throws, in the order due, start, wait, until, scheduled.
\<close>

definition buildTaskModifyArgs :: "jsval \<Rightarrow> error + string list" where
  "buildTaskModifyArgs data =
     (case date_token data ''due'' of Inl e \<Rightarrow> Inl e | Inr due \<Rightarrow>
      case date_token data ''start'' of Inl e \<Rightarrow> Inl e | Inr start \<Rightarrow>
      case date_token data ''wait'' of Inl e \<Rightarrow> Inl e | Inr wait \<Rightarrow>
      case date_token data ''until'' of Inl e \<Rightarrow> Inl e | Inr until \<Rightarrow>
      case date_token data ''scheduled'' of Inl e \<Rightarrow> Inl e | Inr scheduled \<Rightarrow>
      Inr ((if truthy (get_prop data ''description'')
            then [''description:'' @ escapeShellArg (str_of (get_prop data ''description''))]
            else [])
           @ due
           @ field_token data ''priority''
           @ start
           @ (if truthy (get_prop data ''stop_task'') then [''start:''] else [])
           @ wait
           @ until
           @ scheduled
           @ field_token data ''project''
           @ (if truthy (get_prop data ''depends'')
              then [''depends:'' @ join '','' (map str_of (elems (get_prop data ''depends'')))]
              else [])
           @ tag_tokens data ''tags'' ''+''
           @ tag_tokens data ''tags_remove'' ''-''
           @ (if truthy (get_prop data ''clear_fields'')
              then map (\<lambda>field. str_of field @ '':'') (elems (get_prop data ''clear_fields''))
              else [])))"

section \<open>The operations\<close>

text \<open>
  A handler either throws before anything runs (\<open>Inl\<close>) or reaches its one call of
  \<^verbatim>\<open>execSync\<close> (\<open>Inr\<close>): the command line handed to the shell, and the \<^verbatim>\<open>shell\<close> option
  when the call sets one. What the spawned process prints is outside this model.
\<close>

record invocation =
  command :: string
  shell :: "string option"

definition execSync :: "string \<Rightarrow> error + invocation" where
  "execSync cmd = Inr \<lparr>command = cmd, shell = None\<rparr>"

definition execSync_shell :: "string \<Rightarrow> string \<Rightarrow> error + invocation" where
  "execSync_shell cmd sh = Inr \<lparr>command = cmd, shell = Some sh\<rparr>"

text \<open>
  Each handler that collects tokens in a local \<^verbatim>\<open>task_args\<close> array has that array as a
  function of the parsed data, named after the handler.
\<close>

definition get_next_tasks_args :: "jsval \<Rightarrow> string list" where
  "get_next_tasks_args data = tag_tokens data ''tags'' ''+'' @ field_token data ''project''"

definition get_next_tasks :: "jsval \<Rightarrow> error + invocation" where
  "get_next_tasks args =
     (case safeParse listPendingTasksRequest args of
        None \<Rightarrow> Inl (InvalidArguments ''get_next_tasks'')
      | Some data \<Rightarrow>
          execSync (''task limit: '' @ join '' '' (get_next_tasks_args data) @ '' next''))"

definition mark_task_done :: "jsval \<Rightarrow> error + invocation" where
  "mark_task_done args =
     (case safeParse markTaskDoneRequest args of
        None \<Rightarrow> Inl (InvalidArguments ''mark_task_done'')
      | Some data \<Rightarrow> execSync (''task '' @ str_of (get_prop data ''identifier'') @ '' done''))"

text \<open>
  \<^verbatim>\<open>add_task\<close> builds its own tokens: the description, the project and every tag go
  through \<^verbatim>\<open>escapeShellArg\<close>; the due date and the priority do not.
\<close>

definition add_task_args :: "jsval \<Rightarrow> error + string list" where
  "add_task_args data =
     (case date_token data ''due'' of Inl e \<Rightarrow> Inl e | Inr due \<Rightarrow>
      Inr ([''add'', escapeShellArg (str_of (get_prop data ''description''))]
           @ due
           @ field_token data ''priority''
           @ (if truthy (get_prop data ''project'')
              then [''project:'' @ escapeShellArg (str_of (get_prop data ''project''))]
              else [])
           @ (if truthy (get_prop data ''tags'')
              then map (\<lambda>tag. ''+'' @ escapeShellArg (str_of tag)) (elems (get_prop data ''tags''))
              else [])))"

definition add_task :: "jsval \<Rightarrow> error + invocation" where
  "add_task args =
     (case safeParse addTaskRequest args of
        None \<Rightarrow> Inl (InvalidArguments ''add_task'')
      | Some data \<Rightarrow>
          (case add_task_args data of
             Inl e \<Rightarrow> Inl e
           | Inr task_args \<Rightarrow> execSync (''task '' @ join '' '' task_args)))"

definition modify_task :: "jsval \<Rightarrow> error + invocation" where
  "modify_task args =
     (case safeParse modifyTaskRequest args of
        None \<Rightarrow> Inl (InvalidArguments ''modify_task'')
      | Some data \<Rightarrow>
          (case buildTaskModifyArgs data of
             Inl e \<Rightarrow> Inl e
           | Inr task_args \<Rightarrow>
               execSync (''task '' @ escapeShellArg (str_of (get_prop data ''identifier''))
                 @ '' modify '' @ join '' '' task_args)))"

definition modify_tasks_bulk :: "jsval \<Rightarrow> error + invocation" where
  "modify_tasks_bulk args =
     (case safeParse modifyTasksBulkRequest args of
        None \<Rightarrow> Inl (InvalidArguments ''modify_tasks_bulk'')
      | Some data \<Rightarrow>
          (case buildTaskModifyArgs data of
             Inl e \<Rightarrow> Inl e
           | Inr task_args \<Rightarrow>
               execSync_shell (''yes | task '' @ str_of (get_prop data ''filter'')
                 @ '' modify '' @ join '' '' task_args) ''/bin/bash''))"

definition get_task_info :: "jsval \<Rightarrow> error + invocation" where
  "get_task_info args =
     (case safeParse getTaskInfoRequest args of
        None \<Rightarrow> Inl (InvalidArguments ''get_task_info'')
      | Some data \<Rightarrow> execSync (''task '' @ str_of (get_prop data ''identifier'') @ '' info''))"

definition count_tasks_args :: "jsval \<Rightarrow> string list" where
  "count_tasks_args data =
     field_token data ''status'' @ field_token data ''project''
     @ field_token data ''priority'' @ tag_tokens data ''tags'' ''+''"

definition count_tasks :: "jsval \<Rightarrow> error + invocation" where
  "count_tasks args =
     (case safeParse countTasksRequest args of
        None \<Rightarrow> Inl (InvalidArguments ''count_tasks'')
      | Some data \<Rightarrow> execSync (''task '' @ join '' '' (count_tasks_args data) @ '' count''))"

definition list_tasks_filtered_args :: "jsval \<Rightarrow> string list" where
  "list_tasks_filtered_args data =
     field_token data ''status'' @ field_token data ''project''
     @ field_token data ''priority'' @ tag_tokens data ''tags'' ''+''"

definition list_tasks_filtered :: "jsval \<Rightarrow> error + invocation" where
  "list_tasks_filtered args =
     (case safeParse listTasksFilteredRequest args of
        None \<Rightarrow> Inl (InvalidArguments ''list_tasks_filtered'')
      | Some data \<Rightarrow>
          execSync (''task '' @ join '' '' (list_tasks_filtered_args data) @ '' ''
            @ (if truthy (get_prop data ''report'') then str_of (get_prop data ''report'')
               else ''list'')))"

definition delete_task :: "jsval \<Rightarrow> error + invocation" where
  "delete_task args =
     (case safeParse deleteTaskRequest args of
        None \<Rightarrow> Inl (InvalidArguments ''delete_task'')
      | Some data \<Rightarrow>
          execSync (''task rc.confirmation=no '' @ str_of (get_prop data ''identifier'')
            @ '' delete''))"

definition annotate_task :: "jsval \<Rightarrow> error + invocation" where
  "annotate_task args =
     (case safeParse annotateTaskRequest args of
        None \<Rightarrow> Inl (InvalidArguments ''annotate_task'')
      | Some data \<Rightarrow>
          execSync (''task '' @ str_of (get_prop data ''identifier'') @ '' annotate ''
            @ escapeShellArg (str_of (get_prop data ''annotation''))))"

definition append_task :: "jsval \<Rightarrow> error + invocation" where
  "append_task args =
     (case safeParse appendTaskRequest args of
        None \<Rightarrow> Inl (InvalidArguments ''append_task'')
      | Some data \<Rightarrow>
          execSync (''task '' @ str_of (get_prop data ''identifier'') @ '' append ''
            @ escapeShellArg (str_of (get_prop data ''text''))))"

definition prepend_task :: "jsval \<Rightarrow> error + invocation" where
  "prepend_task args =
     (case safeParse prependTaskRequest args of
        None \<Rightarrow> Inl (InvalidArguments ''prepend_task'')
      | Some data \<Rightarrow>
          execSync (''task '' @ str_of (get_prop data ''identifier'') @ '' prepend ''
            @ escapeShellArg (str_of (get_prop data ''text''))))"

definition duplicate_task :: "jsval \<Rightarrow> error + invocation" where
  "duplicate_task args =
     (case safeParse duplicateTaskRequest args of
        None \<Rightarrow> Inl (InvalidArguments ''duplicate_task'')
      | Some data \<Rightarrow>
          execSync (''task '' @ str_of (get_prop data ''identifier'') @ '' duplicate''))"

definition undo_last :: "jsval \<Rightarrow> error + invocation" where
  "undo_last args =
     (case safeParse undoLastRequest args of
        None \<Rightarrow> Inl (InvalidArguments ''undo_last'')
      | Some data \<Rightarrow> execSync ''task rc.confirmation=no undo'')"

definition builtin_report_args :: "jsval \<Rightarrow> string list" where
  "builtin_report_args data =
     field_token data ''project'' @ field_token data ''priority'' @ tag_tokens data ''tags'' ''+''"

definition builtin_report :: "jsval \<Rightarrow> error + invocation" where
  "builtin_report args =
     (case safeParse builtinReportRequest args of
        None \<Rightarrow> Inl (InvalidArguments ''builtin_report'')
      | Some data \<Rightarrow>
          execSync (''task '' @ join '' '' (builtin_report_args data)
            @ '' '' @ str_of (get_prop data ''report'')))"

definition visualization_report_args :: "jsval \<Rightarrow> string list" where
  "visualization_report_args data = field_token data ''project'' @ tag_tokens data ''tags'' ''+''"

definition visualization_report :: "jsval \<Rightarrow> error + invocation" where
  "visualization_report args =
     (case safeParse visualizationReportRequest args of
        None \<Rightarrow> Inl (InvalidArguments ''visualization_report'')
      | Some data \<Rightarrow>
          execSync (''task '' @ join '' '' (visualization_report_args data)
            @ '' '' @ str_of (get_prop data ''report'')))"

text \<open>
  \<^verbatim>\<open>col.charAt(0).toUpperCase() + col.slice(1)\<close>. Upper-casing is modelled on the letters
  \<^verbatim>\<open>a\<close> to \<^verbatim>\<open>z\<close> only; what \<^verbatim>\<open>toUpperCase\<close> does to letters outside ASCII is left out, and
  no property below speaks of the labels of \<open>custom_report\<close>.
\<close>

definition capitalize :: "string \<Rightarrow> string" where
  "capitalize col =
     (case col of [] \<Rightarrow> []
      | c # cs \<Rightarrow> (if c \<in> set lower_chars then other_case c else c) # cs)"

definition custom_report :: "jsval \<Rightarrow> error + invocation" where
  "custom_report args =
     (case safeParse customReportRequest args of
        None \<Rightarrow> Inl (InvalidArguments ''custom_report'')
      | Some data \<Rightarrow>
          (let report = str_of (get_prop data ''report'');
               cols = map str_of (elems (get_prop data ''columns''))
           in execSync (join '' ''
                ([''task'']
                 @ (if truthy (get_prop data ''filter'') then [str_of (get_prop data ''filter'')]
                    else [])
                 @ [report]
                 @ (if truthy (get_prop data ''columns'') \<and> 0 < length cols
                    then [''rc.report.'' @ report @ ''.columns='' @ join '','' cols,
                          ''rc.report.'' @ report @ ''.labels='' @ join '','' (map capitalize cols)]
                    else [])))))"

subsection \<open>The catalog and the dispatcher\<close>

text \<open>The \<^verbatim>\<open>tools\<close> array of the ListTools handler: each entry's name and input schema.\<close>

definition ListTools :: "(string \<times> zobject) list" where
  "ListTools =
     [(''get_next_tasks'', listPendingTasksRequest),
      (''mark_task_done'', markTaskDoneRequest),
      (''add_task'', addTaskRequest),
      (''modify_task'', modifyTaskRequest),
      (''modify_tasks_bulk'', modifyTasksBulkRequest),
      (''get_task_info'', getTaskInfoRequest),
      (''count_tasks'', countTasksRequest),
      (''list_tasks_filtered'', listTasksFilteredRequest),
      (''delete_task'', deleteTaskRequest),
      (''annotate_task'', annotateTaskRequest),
      (''append_task'', appendTaskRequest),
      (''prepend_task'', prependTaskRequest),
      (''duplicate_task'', duplicateTaskRequest),
      (''undo_last'', undoLastRequest),
      (''builtin_report'', builtinReportRequest),
      (''visualization_report'', visualizationReportRequest),
      (''custom_report'', customReportRequest)]"

text \<open>The \<^verbatim>\<open>switch (name)\<close> of the CallTool handler, case by case, with its \<^verbatim>\<open>default\<close>.\<close>

definition CallTool :: "string \<Rightarrow> jsval \<Rightarrow> error + invocation" where
  "CallTool name args =
     (if name = ''get_next_tasks'' then get_next_tasks args
      else if name = ''mark_task_done'' then mark_task_done args
      else if name = ''add_task'' then add_task args
      else if name = ''modify_task'' then modify_task args
      else if name = ''modify_tasks_bulk'' then modify_tasks_bulk args
      else if name = ''get_task_info'' then get_task_info args
      else if name = ''count_tasks'' then count_tasks args
      else if name = ''list_tasks_filtered'' then list_tasks_filtered args
      else if name = ''delete_task'' then delete_task args
      else if name = ''annotate_task'' then annotate_task args
      else if name = ''append_task'' then append_task args
      else if name = ''prepend_task'' then prepend_task args
      else if name = ''duplicate_task'' then duplicate_task args
      else if name = ''undo_last'' then undo_last args
      else if name = ''builtin_report'' then builtin_report args
      else if name = ''visualization_report'' then visualization_report args
      else if name = ''custom_report'' then custom_report args
      else Inl (UnknownTool name))"

section \<open>The words of a pattern\<close>

text \<open>
  The language of a pattern, against which the derivative matcher is verified below; the
  properties of the patterns of the source are then proved on sets of words.
\<close>

definition conc :: "string set \<Rightarrow> string set \<Rightarrow> string set" where
  "conc A B = {u @ v | u v. u \<in> A \<and> v \<in> B}"

inductive_set star :: "string set \<Rightarrow> string set" for A :: "string set" where
  star_Nil: "[] \<in> star A"
| star_app: "u \<in> A \<Longrightarrow> v \<in> star A \<Longrightarrow> u @ v \<in> star A"

fun lang :: "rexp \<Rightarrow> string set" where
  "lang Empty = {}"
| "lang Eps = {[]}"
| "lang (Atom cs) = {[c] | c. c \<in> set cs}"
| "lang (Alt r s) = lang r \<union> lang s"
| "lang (Seq r s) = conc (lang r) (lang s)"
| "lang (Star r) = star (lang r)"

section \<open>A word as the shell reads it\<close>

text \<open>
  The command line is handed to a POSIX shell, which is not part of the repository. The
  function below follows the quoting rules of the Shell Command Language (section 2.2) on
  one word: between single quotes every character stands for itself, up to the next single
  quote; outside quotes a backslash makes the next character stand for itself (and is
  dropped together with a newline that follows it); any other character that the shell
  would treat specially when unquoted ends the reading with \<open>None\<close>, as does an open
  quote or a trailing backslash. \<open>Some s\<close> says the word is one field whose value is \<open>s\<close>.
\<close>

definition sh_special :: "char list" where
  "sh_special = [CHR 0x20, CHR 0x09, CHR 0x0A] @ ''|&;<>()$`\"*?[#~=%''"

fun sh_word :: "bool \<Rightarrow> string \<Rightarrow> string option" where
  "sh_word False [] = Some []"
| "sh_word True [] = None"
| "sh_word True (c # cs) =
     (if c = SQ then sh_word False cs else map_option ((#) c) (sh_word True cs))"
| "sh_word False (c # cs) =
     (if c = SQ then sh_word True cs
      else if c = BS then
        (case cs of
           [] \<Rightarrow> None
         | d # ds \<Rightarrow> if d = CHR 0x0A then sh_word False ds
                     else map_option ((#) d) (sh_word False ds))
      else if c \<in> set sh_special then None
      else map_option ((#) c) (sh_word False cs))"

definition sh_eval :: "string \<Rightarrow> string option" where
  "sh_eval w = sh_word False w"

section \<open>The statements of the specification\<close>

text \<open>A schema accepts a value when parsing the value succeeds.\<close>

definition accepts :: "zschema \<Rightarrow> jsval \<Rightarrow> bool" where
  "accepts sch v = (safeParse_value sch v \<noteq> None)"


text \<open>
  The escaping rule in the specification's words: the text between single quotes, every
  single quote of the text replaced by close-quote, backslash, quote, open-quote.
\<close>

definition spec_escape :: "string \<Rightarrow> string" where
  "spec_escape s = [SQ] @ concat (map (\<lambda>c. if c = SQ then [SQ, BS, SQ, SQ] else [c]) s) @ [SQ]"

text \<open>
  The tag pattern as the schemas have it, \<^verbatim>\<open>[@a-z0-9_-]+\<close>, and as the specification
  words it, \<^verbatim>\<open>[@A-Za-z0-9_-]+\<close>.
\<close>

definition tag_ok :: "string \<Rightarrow> bool" where
  "tag_ok t = (t \<noteq> [] \<and> list_all (\<lambda>c. c \<in> set (''@'' @ lower_chars @ digit_chars @ ''_-'')) t)"

definition spec_tag_ok :: "string \<Rightarrow> bool" where
  "spec_tag_ok t =
     (t \<noteq> [] \<and> list_all (\<lambda>c. c \<in> set (''@'' @ upper_chars @ lower_chars @ digit_chars @ ''_-'')) t)"

text \<open>
  The date grammars in plain terms. The shape of a text replaces every digit by \<open>0\<close>;
  letter case is removed by \<open>lower_str\<close>. An ISO timestamp is a date
  \<^verbatim>\<open>dddd-dd-dd\<close>, alone or followed by a time \<^verbatim>\<open>Tdd:dd:dd\<close>, an optional fraction \<^verbatim>\<open>.ddd\<close>
  and an optional zone \<^verbatim>\<open>Z\<close> or \<^verbatim>\<open>+dd:dd\<close> or \<^verbatim>\<open>-dd:dd\<close>. A relative offset is a sign,
  one or more digits and one of the unit letters. An ordinal, as the code accepts it, is
  one or two digits followed by \<^verbatim>\<open>st\<close>, \<^verbatim>\<open>nd\<close>, \<^verbatim>\<open>rd\<close> or \<^verbatim>\<open>th\<close> in any letter case; the
  specification has the ordinal days \<^verbatim>\<open>1st\<close> to \<^verbatim>\<open>31st\<close> instead.
\<close>

definition digit_shape :: "string \<Rightarrow> string" where
  "digit_shape v = map (\<lambda>c. if c \<in> set digit_chars then CHR ''0'' else c) v"

definition to_lower :: "char \<Rightarrow> char" where
  "to_lower c = (if c \<in> set upper_chars then other_case c else c)"

definition lower_str :: "string \<Rightarrow> string" where
  "lower_str v = map to_lower v"

definition iso_shapes :: "string list" where
  "iso_shapes =
     ''0000-00-00'' #
     concat (map (\<lambda>frac. map (\<lambda>zone. ''0000-00-00T00:00:00'' @ frac @ zone)
                              ['''', ''Z'', ''+00:00'', ''-00:00''])
                 ['''', ''.000''])"

definition is_iso :: "string \<Rightarrow> bool" where
  "is_iso v = (digit_shape v \<in> set iso_shapes)"

definition is_relative :: "string \<Rightarrow> bool" where
  "is_relative v =
     (case v of [] \<Rightarrow> False
      | s # r \<Rightarrow> s \<in> set ''+-'' \<and> r \<noteq> [] \<and> butlast r \<noteq> [] \<and>
                 list_all (\<lambda>c. c \<in> set digit_chars) (butlast r) \<and> last r \<in> set ''dwmqy'')"

definition named_dates :: "string list" where
  "named_dates = [''eom'', ''eoq'', ''eoy'', ''som'', ''soq'', ''soy'', ''today'', ''tomorrow'',
                  ''yesterday'', ''now'']"

definition weekday_names :: "string list" where
  "weekday_names = [''monday'', ''tuesday'', ''wednesday'', ''thursday'', ''friday'',
                    ''saturday'', ''sunday'']"

definition month_names :: "string list" where
  "month_names = [''january'', ''february'', ''march'', ''april'', ''may'', ''june'', ''july'',
                  ''august'', ''september'', ''october'', ''november'', ''december'']"

definition is_ordinal :: "string \<Rightarrow> bool" where
  "is_ordinal v =
     (lower_str (digit_shape v) \<in>
        set [''0st'', ''0nd'', ''0rd'', ''0th'', ''00st'', ''00nd'', ''00rd'', ''00th''])"

definition ordinal_days :: "string list" where
  "ordinal_days =
     [''1st'', ''2nd'', ''3rd'', ''4th'', ''5th'', ''6th'', ''7th'', ''8th'', ''9th'', ''10th'',
      ''11th'', ''12th'', ''13th'', ''14th'', ''15th'', ''16th'', ''17th'', ''18th'', ''19th'',
      ''20th'', ''21st'', ''22nd'', ''23rd'', ''24th'', ''25th'', ''26th'', ''27th'', ''28th'',
      ''29th'', ''30th'', ''31st'']"

definition date_accepted :: "string \<Rightarrow> bool" where
  "date_accepted v =
     (is_iso v \<or> is_relative v \<or> lower_str v \<in> set named_dates \<or>
      lower_str v \<in> set weekday_names \<or> lower_str v \<in> set month_names \<or> is_ordinal v)"

definition spec_date_grammar :: "string \<Rightarrow> bool" where
  "spec_date_grammar v =
     (is_iso v \<or> is_relative v \<or> lower_str v \<in> set named_dates \<or>
      lower_str v \<in> set weekday_names \<or> lower_str v \<in> set month_names \<or>
      lower_str v \<in> set ordinal_days)"

text \<open>
  What it is for a token list to carry a present field as it is, or shell-escaped: the
  text of a non-empty string property, after the field name and a colon; each tag of an
  array property, after its sign.
\<close>

definition raw_field :: "jsval \<Rightarrow> string \<Rightarrow> string list \<Rightarrow> bool" where
  "raw_field args f toks = (\<forall>v. get_prop args f = JStr v \<and> v \<noteq> [] \<longrightarrow> f @ '':'' @ v \<in> set toks)"

definition escaped_field :: "jsval \<Rightarrow> string \<Rightarrow> string list \<Rightarrow> bool" where
  "escaped_field args f toks =
     (\<forall>v. get_prop args f = JStr v \<and> v \<noteq> [] \<longrightarrow> f @ '':'' @ escapeShellArg v \<in> set toks)"

definition raw_tags :: "jsval \<Rightarrow> string \<Rightarrow> string \<Rightarrow> string list \<Rightarrow> bool" where
  "raw_tags args f sign toks =
     (\<forall>ts t. get_prop args f = JArr ts \<and> JStr t \<in> set ts \<longrightarrow> sign @ t \<in> set toks)"

definition escaped_tags :: "jsval \<Rightarrow> string \<Rightarrow> string \<Rightarrow> string list \<Rightarrow> bool" where
  "escaped_tags args f sign toks =
     (\<forall>ts t. get_prop args f = JArr ts \<and> JStr t \<in> set ts \<longrightarrow> sign @ escapeShellArg t \<in> set toks)"

section \<open>Properties\<close>

subsection \<open>The derivative matcher decides the language\<close>

lemma in_conc: "w \<in> conc A B \<longleftrightarrow> (\<exists>u v. w = u @ v \<and> u \<in> A \<and> v \<in> B)"
  unfolding conc_def by auto

lemma nullable_lang: "nullable r \<longleftrightarrow> [] \<in> lang r"
  by (induction r) (auto simp: conc_def intro: star.star_Nil)

lemma Cons_in_conc:
  "c # w \<in> conc A B \<longleftrightarrow> ([] \<in> A \<and> c # w \<in> B) \<or> (\<exists>u v. w = u @ v \<and> c # u \<in> A \<and> v \<in> B)"
  unfolding conc_def by (auto simp: Cons_eq_append_conv)

lemma Cons_in_star:
  "c # w \<in> star A \<longleftrightarrow> (\<exists>u v. w = u @ v \<and> c # u \<in> A \<and> v \<in> star A)"
proof
  assume "c # w \<in> star A"
  then show "\<exists>u v. w = u @ v \<and> c # u \<in> A \<and> v \<in> star A"
  proof (induction "c # w" rule: star.induct)
    case (star_app u v)
    then show ?case by (cases u) auto
  qed
next
  assume "\<exists>u v. w = u @ v \<and> c # u \<in> A \<and> v \<in> star A"
  then obtain u v where "w = u @ v" "c # u \<in> A" "v \<in> star A" by blast
  then show "c # w \<in> star A" using star.star_app [of "c # u" A v] by simp
qed

lemma lang_deriv: "w \<in> lang (deriv c r) \<longleftrightarrow> c # w \<in> lang r"
proof (induction r arbitrary: w)
  case (Seq r s)
  have "v \<in> conc (lang (deriv c r)) (lang s) \<longleftrightarrow>
          (\<exists>u v'. v = u @ v' \<and> c # u \<in> lang r \<and> v' \<in> lang s)" for v
    by (simp add: in_conc Seq.IH)
  then show ?case by (auto simp: Cons_in_conc nullable_lang Seq.IH)
next
  case (Star r)
  have "v \<in> conc (lang (deriv c r)) (star (lang r)) \<longleftrightarrow>
          (\<exists>u v'. v = u @ v' \<and> c # u \<in> lang r \<and> v' \<in> star (lang r))" for v
    by (simp add: in_conc Star.IH)
  then show ?case by (simp add: Cons_in_star)
qed auto

lemma regex_test_lang: "regex_test r w \<longleftrightarrow> w \<in> lang r"
  by (induction w arbitrary: r) (simp_all add: nullable_lang lang_deriv)


subsection \<open>Parsing returns the properties it was given\<close>

lemma those_map_all2:
  "those (map f xs) = Some ys \<longleftrightarrow> list_all2 (\<lambda>x y. f x = Some y) xs ys"
  by (induction xs arbitrary: ys) (auto simp: list_all2_Cons1 split: option.splits)

lemma safeParse_value_same: "safeParse_value sch v = Some v' \<Longrightarrow> v' = v"
proof (induction sch v arbitrary: v' rule: safeParse_value.induct)
  case (4 e xs)
  then obtain ys where ys: "those (map (safeParse_value e) xs) = Some ys" and v': "v' = JArr ys"
    by auto
  from ys have "list_all2 (\<lambda>x y. safeParse_value e x = Some y) xs ys"
    by (simp add: those_map_all2)
  then have "list_all2 (=) xs ys"
    by (rule list.rel_mono_strong) (use "4.IH" in auto)
  then have "xs = ys" by (simp add: list_all2_eq)
  then show ?case using v' by simp
qed (auto split: if_splits)

lemma safeParse_value_iff:
  "safeParse_value sch v = Some v' \<longleftrightarrow> safeParse_value sch v \<noteq> None \<and> v' = v"
  using safeParse_value_same by fastforce

lemma safeParse_Some:
  "safeParse shape args = Some data \<longleftrightarrow>
     (\<exists>kvs. args = JObj kvs) \<and>
     list_all (\<lambda>f. safeParse_value (snd f) (get_prop args (fst f)) \<noteq> None) shape \<and>
     data = JObj (map (\<lambda>f. (fst f, get_prop args (fst f))) shape)"
proof (cases args)
  case (JObj kvs)
  have "those (map (safeParse_field args) shape) = Some ps \<longleftrightarrow>
        list_all (\<lambda>f. safeParse_value (snd f) (get_prop args (fst f)) \<noteq> None) shape \<and>
        ps = map (\<lambda>f. (fst f, get_prop args (fst f))) shape" for ps
  proof (induction shape arbitrary: ps)
    case Nil
    then show ?case by auto
  next
    case (Cons f fs)
    show ?case
    proof (cases "safeParse_value (snd f) (get_prop args (fst f))")
      case None
      then have "safeParse_field args f = None" by (simp add: safeParse_field_def)
      with None show ?thesis by simp
    next
      case (Some a)
      then have "a = get_prop args (fst f)" by (rule safeParse_value_same)
      with Some have "safeParse_field args f = Some (fst f, get_prop args (fst f))"
        by (simp add: safeParse_field_def)
      with Some show ?thesis by (auto simp: Cons)
    qed
  qed
  with JObj show ?thesis by auto
qed simp_all

lemma get_prop_map:
  "get_prop (JObj (map (\<lambda>f. (fst f, g (fst f))) shape)) k =
     (if k \<in> fst ` set shape then g k else JUndefined)"
  by (induction shape) auto

lemma accepts_ZString [simp]:
  "accepts (ZString cs) v \<longleftrightarrow> (\<exists>s. v = JStr s \<and> list_all (\<lambda>c. check_ok c s) cs)"
  by (cases v) (auto simp: accepts_def)

lemma accepts_ZEnum [simp]: "accepts (ZEnum vs) v \<longleftrightarrow> (\<exists>s. v = JStr s \<and> s \<in> set vs)"
  by (cases v) (auto simp: accepts_def)

lemma accepts_ZBoolean [simp]: "accepts ZBoolean v \<longleftrightarrow> (\<exists>b. v = JBool b)"
  by (cases v) (auto simp: accepts_def)

lemma accepts_ZArray [simp]:
  "accepts (ZArray e) v \<longleftrightarrow> (\<exists>xs. v = JArr xs \<and> list_all (accepts e) xs)"
proof (cases v)
  case (JArr xs)
  have "(\<exists>ys. those (map (safeParse_value e) xs) = Some ys) \<longleftrightarrow> list_all (accepts e) xs"
    by (induction xs) (auto simp: accepts_def split: option.splits)
  with JArr show ?thesis by (auto simp: accepts_def)
qed (auto simp: accepts_def)

lemma accepts_ZOptional [simp]:
  "accepts (ZOptional e) v \<longleftrightarrow> v = JUndefined \<or> accepts e v"
  by (auto simp: accepts_def)

lemma map_of_fields [simp]:
  "map_of (map (\<lambda>f. (fst f, g (fst f))) shape) k =
     (if k \<in> fst ` set shape then Some (g k) else None)"
  by (induction shape) auto

lemma safeParse_eq:
  "safeParse shape args =
     (if (\<exists>kvs. args = JObj kvs) \<and>
         list_all (\<lambda>f. accepts (snd f) (get_prop args (fst f))) shape
      then Some (JObj (map (\<lambda>f. (fst f, get_prop args (fst f))) shape)) else None)"
  using safeParse_Some [of shape args] by (cases "safeParse shape args") (auto simp: accepts_def)

lemma parsed_get_prop:
  assumes "safeParse shape args = Some data"
  shows "get_prop data k = (if k \<in> fst ` set shape then get_prop args k else JUndefined)"
proof -
  from assms have "data = JObj (map (\<lambda>f. (fst f, get_prop args (fst f))) shape)"
    by (simp add: safeParse_eq del: safeParse.simps split: if_splits)
  then show ?thesis by (simp only: get_prop_map)
qed

subsection \<open>What each handler runs\<close>

lemmas handler_simps = execSync_def execSync_shell_def safeParse_eq

lemma mark_task_done_Inr:
  "mark_task_done args = Inr iv \<longleftrightarrow>
     (\<exists>kvs. args = JObj kvs) \<and>
     (\<exists>i. get_prop args ''identifier'' = JStr i \<and>
          iv = \<lparr>command = ''task '' @ i @ '' done'', shell = None\<rparr>)"
  by (auto simp: mark_task_done_def markTaskDoneRequest_def handler_simps
        simp del: safeParse.simps split: option.splits if_splits)

lemma get_task_info_Inr:
  "get_task_info args = Inr iv \<longleftrightarrow>
     (\<exists>kvs. args = JObj kvs) \<and>
     (\<exists>i. get_prop args ''identifier'' = JStr i \<and>
          iv = \<lparr>command = ''task '' @ i @ '' info'', shell = None\<rparr>)"
  by (auto simp: get_task_info_def getTaskInfoRequest_def handler_simps
        simp del: safeParse.simps split: option.splits if_splits)

lemma delete_task_Inr:
  "delete_task args = Inr iv \<longleftrightarrow>
     (\<exists>kvs. args = JObj kvs) \<and>
     (\<exists>i. get_prop args ''identifier'' = JStr i \<and>
          iv = \<lparr>command = ''task rc.confirmation=no '' @ i @ '' delete'', shell = None\<rparr>)"
  by (auto simp: delete_task_def deleteTaskRequest_def handler_simps
        simp del: safeParse.simps split: option.splits if_splits)

lemma duplicate_task_Inr:
  "duplicate_task args = Inr iv \<longleftrightarrow>
     (\<exists>kvs. args = JObj kvs) \<and>
     (\<exists>i. get_prop args ''identifier'' = JStr i \<and>
          iv = \<lparr>command = ''task '' @ i @ '' duplicate'', shell = None\<rparr>)"
  by (auto simp: duplicate_task_def duplicateTaskRequest_def handler_simps
        simp del: safeParse.simps split: option.splits if_splits)

lemma annotate_task_Inr:
  "annotate_task args = Inr iv \<longleftrightarrow>
     (\<exists>kvs. args = JObj kvs) \<and>
     (\<exists>i a. get_prop args ''identifier'' = JStr i \<and> get_prop args ''annotation'' = JStr a \<and>
          iv = \<lparr>command = ''task '' @ i @ '' annotate '' @ escapeShellArg a, shell = None\<rparr>)"
  by (auto simp: annotate_task_def annotateTaskRequest_def handler_simps
        simp del: safeParse.simps split: option.splits if_splits)

lemma append_task_Inr:
  "append_task args = Inr iv \<longleftrightarrow>
     (\<exists>kvs. args = JObj kvs) \<and>
     (\<exists>i a. get_prop args ''identifier'' = JStr i \<and> get_prop args ''text'' = JStr a \<and>
          iv = \<lparr>command = ''task '' @ i @ '' append '' @ escapeShellArg a, shell = None\<rparr>)"
  by (auto simp: append_task_def appendTaskRequest_def handler_simps
        simp del: safeParse.simps split: option.splits if_splits)

lemma prepend_task_Inr:
  "prepend_task args = Inr iv \<longleftrightarrow>
     (\<exists>kvs. args = JObj kvs) \<and>
     (\<exists>i a. get_prop args ''identifier'' = JStr i \<and> get_prop args ''text'' = JStr a \<and>
          iv = \<lparr>command = ''task '' @ i @ '' prepend '' @ escapeShellArg a, shell = None\<rparr>)"
  by (auto simp: prepend_task_def prependTaskRequest_def handler_simps
        simp del: safeParse.simps split: option.splits if_splits)

lemma undo_last_Inr:
  "undo_last args = Inr iv \<longleftrightarrow>
     (\<exists>kvs. args = JObj kvs) \<and> iv = \<lparr>command = ''task rc.confirmation=no undo'', shell = None\<rparr>"
  by (auto simp: undo_last_def undoLastRequest_def handler_simps
        simp del: safeParse.simps split: option.splits if_splits)

lemma build_same_props:
  assumes "list_all (\<lambda>f. get_prop data f = get_prop args f) (map fst modifyFields)"
  shows "buildTaskModifyArgs data = buildTaskModifyArgs args"
proof -
  from assms have
    "get_prop data ''description'' = get_prop args ''description''"
    "get_prop data ''due'' = get_prop args ''due''"
    "get_prop data ''start'' = get_prop args ''start''"
    "get_prop data ''stop_task'' = get_prop args ''stop_task''"
    "get_prop data ''wait'' = get_prop args ''wait''"
    "get_prop data ''until'' = get_prop args ''until''"
    "get_prop data ''scheduled'' = get_prop args ''scheduled''"
    "get_prop data ''priority'' = get_prop args ''priority''"
    "get_prop data ''project'' = get_prop args ''project''"
    "get_prop data ''depends'' = get_prop args ''depends''"
    "get_prop data ''tags'' = get_prop args ''tags''"
    "get_prop data ''tags_remove'' = get_prop args ''tags_remove''"
    "get_prop data ''clear_fields'' = get_prop args ''clear_fields''"
    by (simp_all add: modifyFields_def)
  then show ?thesis
    unfolding buildTaskModifyArgs_def date_token_def field_token_def tag_tokens_def
    by (simp only:)
qed

lemma build_parsed_bulk:
  assumes "safeParse modifyTasksBulkRequest args = Some data"
  shows "buildTaskModifyArgs data = buildTaskModifyArgs args"
  by (rule build_same_props)
     (simp add: parsed_get_prop [OF assms] modifyTasksBulkRequest_def modifyFields_def)

lemma build_parsed_modify:
  assumes "safeParse modifyTaskRequest args = Some data"
  shows "buildTaskModifyArgs data = buildTaskModifyArgs args"
  by (rule build_same_props)
     (simp add: parsed_get_prop [OF assms] modifyTaskRequest_def modifyFields_def)

lemma modify_tasks_bulk_Inr:
  "modify_tasks_bulk args = Inr iv \<longleftrightarrow>
     safeParse modifyTasksBulkRequest args \<noteq> None \<and>
     (\<exists>f toks. get_prop args ''filter'' = JStr f \<and> f \<noteq> [] \<and>
        buildTaskModifyArgs args = Inr toks \<and>
        iv = \<lparr>command = ''yes | task '' @ f @ '' modify '' @ join '' '' toks,
              shell = Some ''/bin/bash''\<rparr>)"
proof (cases "safeParse modifyTasksBulkRequest args")
  case None
  then show ?thesis by (simp add: modify_tasks_bulk_def)
next
  case (Some data)
  note b = build_parsed_bulk [OF Some]
  have "get_prop data ''filter'' = get_prop args ''filter''"
    by (simp add: parsed_get_prop [OF Some] modifyTasksBulkRequest_def)
  moreover have "\<exists>f. get_prop args ''filter'' = JStr f \<and> f \<noteq> []"
    using Some by (auto simp: safeParse_eq modifyTasksBulkRequest_def
        simp del: safeParse.simps split: if_splits)
  ultimately show ?thesis using Some
    by (auto simp: modify_tasks_bulk_def b execSync_shell_def split: sum.splits)
qed


lemma modify_task_Inr:
  "modify_task args = Inr iv \<longleftrightarrow>
     safeParse modifyTaskRequest args \<noteq> None \<and>
     (\<exists>i toks. get_prop args ''identifier'' = JStr i \<and> i \<noteq> [] \<and>
        buildTaskModifyArgs args = Inr toks \<and>
        iv = \<lparr>command = ''task '' @ escapeShellArg i @ '' modify '' @ join '' '' toks,
              shell = None\<rparr>)"
proof (cases "safeParse modifyTaskRequest args")
  case None
  then show ?thesis by (simp add: modify_task_def)
next
  case (Some data)
  note b = build_parsed_modify [OF Some]
  have "get_prop data ''identifier'' = get_prop args ''identifier''"
    by (simp add: parsed_get_prop [OF Some] modifyTaskRequest_def)
  moreover have "\<exists>f. get_prop args ''identifier'' = JStr f \<and> f \<noteq> []"
    using Some by (auto simp: safeParse_eq modifyTaskRequest_def
        simp del: safeParse.simps split: if_splits)
  ultimately show ?thesis using Some
    by (auto simp: modify_task_def b execSync_def split: sum.splits)
qed

lemma date_token_Inl: "date_token data f = Inl e \<Longrightarrow> \<exists>v. e = InvalidDateFormat v"
  by (auto simp: date_token_def parseFlexibleDate_def split: if_splits sum.splits)

lemma buildTaskModifyArgs_Inl:
  "buildTaskModifyArgs data = Inl e \<Longrightarrow> \<exists>v. e = InvalidDateFormat v"
  by (auto simp: buildTaskModifyArgs_def split: sum.splits dest: date_token_Inl)

lemma add_task_args_Inl: "add_task_args data = Inl e \<Longrightarrow> \<exists>v. e = InvalidDateFormat v"
  by (auto simp: add_task_args_def split: sum.splits dest: date_token_Inl)

lemma handlers_known:
  "get_next_tasks args \<noteq> Inl (UnknownTool n)"
  "mark_task_done args \<noteq> Inl (UnknownTool n)"
  "add_task args \<noteq> Inl (UnknownTool n)"
  "modify_task args \<noteq> Inl (UnknownTool n)"
  "modify_tasks_bulk args \<noteq> Inl (UnknownTool n)"
  "get_task_info args \<noteq> Inl (UnknownTool n)"
  "count_tasks args \<noteq> Inl (UnknownTool n)"
  "list_tasks_filtered args \<noteq> Inl (UnknownTool n)"
  "delete_task args \<noteq> Inl (UnknownTool n)"
  "annotate_task args \<noteq> Inl (UnknownTool n)"
  "append_task args \<noteq> Inl (UnknownTool n)"
  "prepend_task args \<noteq> Inl (UnknownTool n)"
  "duplicate_task args \<noteq> Inl (UnknownTool n)"
  "undo_last args \<noteq> Inl (UnknownTool n)"
  "builtin_report args \<noteq> Inl (UnknownTool n)"
  "visualization_report args \<noteq> Inl (UnknownTool n)"
  "custom_report args \<noteq> Inl (UnknownTool n)"
  by (auto simp: get_next_tasks_def mark_task_done_def add_task_def modify_task_def
        modify_tasks_bulk_def get_task_info_def count_tasks_def list_tasks_filtered_def
        delete_task_def annotate_task_def append_task_def prepend_task_def duplicate_task_def
        undo_last_def builtin_report_def visualization_report_def custom_report_def
        execSync_def execSync_shell_def Let_def
        simp del: safeParse.simps
        split: option.splits sum.splits
        dest: buildTaskModifyArgs_Inl add_task_args_Inl)

lemma modify_rejects_empty:
  "get_prop args ''identifier'' = JStr [] \<Longrightarrow>
     CallTool ''modify_task'' args = Inl (InvalidArguments ''modify_task'')"
  "get_prop args ''filter'' = JStr [] \<Longrightarrow>
     CallTool ''modify_tasks_bulk'' args = Inl (InvalidArguments ''modify_tasks_bulk'')"
  by (simp_all add: CallTool_def modify_task_def modify_tasks_bulk_def safeParse_eq
        modifyTaskRequest_def modifyTasksBulkRequest_def del: safeParse.simps)

subsection \<open>Shell escaping\<close>

lemma replace_all_char_concat:
  "replace_all_char c r s = concat (map (\<lambda>x. if x = c then r else [x]) s)"
  by (induction s) simp_all

lemma sh_word_quoted:
  "sh_word True (replace_all_char SQ [SQ, BS, SQ, SQ] s @ [SQ]) = Some s"
  by (induction s) simp_all

text \<open>
  Claim C1. For every string \<open>s\<close>, \<open>escapeShellArg s\<close> is \<open>s\<close> between single quotes with
  every single quote of \<open>s\<close> replaced by the four characters quote, backslash, quote,
  quote. In particular \<open>add_task\<close> with the description \<^verbatim>\<open>It's a test\<close> pushes the token
  \<^verbatim>\<open>'It'\''s a test'\<close> after \<^verbatim>\<open>add\<close>, and runs the command line made of the two.
\<close>

theorem escapeShellArg_spec:
  "escapeShellArg s = spec_escape s \<and>
   add_task_args (JObj [(''description'', JStr (''It'' @ [SQ] @ ''s a test''))]) =
     Inr [''add'', [SQ] @ ''It'' @ [SQ, BS, SQ, SQ] @ ''s a test'' @ [SQ]] \<and>
   CallTool ''add_task'' (JObj [(''description'', JStr (''It'' @ [SQ] @ ''s a test''))]) =
     Inr \<lparr>command = ''task add '' @ [SQ] @ ''It'' @ [SQ, BS, SQ, SQ] @ ''s a test'' @ [SQ],
          shell = None\<rparr>"
proof (intro conjI)
  show "escapeShellArg s = spec_escape s"
    by (simp add: escapeShellArg_def spec_escape_def replace_all_char_concat)
  show "add_task_args (JObj [(''description'', JStr (''It'' @ [SQ] @ ''s a test''))]) =
     Inr [''add'', [SQ] @ ''It'' @ [SQ, BS, SQ, SQ] @ ''s a test'' @ [SQ]]"
    by code_simp
  show "CallTool ''add_task'' (JObj [(''description'', JStr (''It'' @ [SQ] @ ''s a test''))]) =
     Inr \<lparr>command = ''task add '' @ [SQ] @ ''It'' @ [SQ, BS, SQ, SQ] @ ''s a test'' @ [SQ],
          shell = None\<rparr>"
    by code_simp
qed

text \<open>
  Claim C2. For every text \<open>s\<close>, with or without single quotes in it, the shell reads the
  token \<open>escapeShellArg s\<close> as one word whose value is \<open>s\<close>.
\<close>

theorem escape_unquote_roundtrip:
  "sh_eval (escapeShellArg s) = Some s"
  by (simp add: sh_eval_def escapeShellArg_def sh_word_quoted)

subsection \<open>Confirmation prompts\<close>

text \<open>
  A request whose modification fields pass the schema and whose dates parse gets its
  modifier tokens: the builder does not throw.
\<close>

lemma date_token_ok:
  assumes "accepts (ZOptional (ZString [ZMin 1])) (get_prop args f)"
    and "\<forall>v. get_prop args f = JStr v \<longrightarrow> parseFlexibleDate v = Inr v"
  shows "\<exists>t. date_token args f = Inr t"
  using assms by (auto simp: date_token_def)

lemma build_total:
  assumes v: "list_all (\<lambda>f. accepts (snd f) (get_prop args (fst f))) modifyFields"
    and d: "list_all (\<lambda>f. \<forall>v. get_prop args f = JStr v \<longrightarrow> parseFlexibleDate v = Inr v)
              [''due'', ''start'', ''wait'', ''until'', ''scheduled'']"
  shows "\<exists>toks. buildTaskModifyArgs args = Inr toks"
proof -
  from v have a: "accepts (ZOptional (ZString [ZMin 1])) (get_prop args ''due'')"
    "accepts (ZOptional (ZString [ZMin 1])) (get_prop args ''start'')"
    "accepts (ZOptional (ZString [ZMin 1])) (get_prop args ''wait'')"
    "accepts (ZOptional (ZString [ZMin 1])) (get_prop args ''until'')"
    "accepts (ZOptional (ZString [ZMin 1])) (get_prop args ''scheduled'')"
    by (simp_all add: modifyFields_def del: accepts_ZOptional)
  from d have p: "\<forall>v. get_prop args ''due'' = JStr v \<longrightarrow> parseFlexibleDate v = Inr v"
    "\<forall>v. get_prop args ''start'' = JStr v \<longrightarrow> parseFlexibleDate v = Inr v"
    "\<forall>v. get_prop args ''wait'' = JStr v \<longrightarrow> parseFlexibleDate v = Inr v"
    "\<forall>v. get_prop args ''until'' = JStr v \<longrightarrow> parseFlexibleDate v = Inr v"
    "\<forall>v. get_prop args ''scheduled'' = JStr v \<longrightarrow> parseFlexibleDate v = Inr v"
    by simp_all
  from date_token_ok [OF a(1) p(1)] obtain t1 where 1: "date_token args ''due'' = Inr t1" ..
  from date_token_ok [OF a(2) p(2)] obtain t2 where 2: "date_token args ''start'' = Inr t2" ..
  from date_token_ok [OF a(3) p(3)] obtain t3 where 3: "date_token args ''wait'' = Inr t3" ..
  from date_token_ok [OF a(4) p(4)] obtain t4 where 4: "date_token args ''until'' = Inr t4" ..
  from date_token_ok [OF a(5) p(5)] obtain t5 where 5: "date_token args ''scheduled'' = Inr t5" ..
  show ?thesis unfolding buildTaskModifyArgs_def by (simp only: 1 2 3 4 5 sum.case) blast
qed

text \<open>
  Claim C8. Every valid \<open>modify_tasks_bulk\<close> request, whatever its filter, runs a command
  wrapped with the affirmative-answer pipe. Valid: the arguments are an object, every field
  of the schema accepts its property, and every date that is present parses. Then the
  handler runs \<^verbatim>\<open>yes | task <filter> modify <tokens>\<close> under \<^verbatim>\<open>/bin/bash\<close>, the filter as
  given. Conversely every command the handler runs has this form, so none runs without the
  pipe.
\<close>

theorem bulk_always_piped:
  "((\<exists>kvs. args = JObj kvs) \<and>
    list_all (\<lambda>f. accepts (snd f) (get_prop args (fst f))) modifyTasksBulkRequest \<and>
    list_all (\<lambda>f. \<forall>v. get_prop args f = JStr v \<longrightarrow> parseFlexibleDate v = Inr v)
      [''due'', ''start'', ''wait'', ''until'', ''scheduled''] \<longrightarrow>
    (\<exists>f toks. get_prop args ''filter'' = JStr f \<and> buildTaskModifyArgs args = Inr toks \<and>
       CallTool ''modify_tasks_bulk'' args =
         Inr \<lparr>command = ''yes | task '' @ f @ '' modify '' @ join '' '' toks,
              shell = Some ''/bin/bash''\<rparr>)) \<and>
   (CallTool ''modify_tasks_bulk'' args = Inr iv \<longrightarrow>
      prefix ''yes | task '' (command iv) \<and> shell iv = Some ''/bin/bash'' \<and>
      (\<exists>f toks. get_prop args ''filter'' = JStr f \<and> buildTaskModifyArgs args = Inr toks \<and>
         command iv = ''yes | task '' @ f @ '' modify '' @ join '' '' toks))"
proof (intro conjI impI)
  assume h: "(\<exists>kvs. args = JObj kvs) \<and>
    list_all (\<lambda>f. accepts (snd f) (get_prop args (fst f))) modifyTasksBulkRequest \<and>
    list_all (\<lambda>f. \<forall>v. get_prop args f = JStr v \<longrightarrow> parseFlexibleDate v = Inr v)
      [''due'', ''start'', ''wait'', ''until'', ''scheduled'']"
  then have p: "safeParse modifyTasksBulkRequest args \<noteq> None"
    by (simp add: safeParse_eq del: safeParse.simps)
  from h have a: "accepts (ZString [ZMin 1]) (get_prop args ''filter'')"
    and m: "list_all (\<lambda>f. accepts (snd f) (get_prop args (fst f))) modifyFields"
    by (simp_all add: modifyTasksBulkRequest_def)
  from a have "\<exists>f. get_prop args ''filter'' = JStr f \<and> f \<noteq> []"
    by (cases "get_prop args ''filter''") (auto simp: Suc_le_eq)
  then obtain f where f: "get_prop args ''filter'' = JStr f" "f \<noteq> []" by blast
  from h build_total [OF m] obtain toks where t: "buildTaskModifyArgs args = Inr toks"
    by blast
  have "modify_tasks_bulk args =
         Inr \<lparr>command = ''yes | task '' @ f @ '' modify '' @ join '' '' toks,
              shell = Some ''/bin/bash''\<rparr>"
    unfolding modify_tasks_bulk_Inr using p f t by simp
  with f t show "\<exists>f toks. get_prop args ''filter'' = JStr f \<and>
       buildTaskModifyArgs args = Inr toks \<and>
       CallTool ''modify_tasks_bulk'' args =
         Inr \<lparr>command = ''yes | task '' @ f @ '' modify '' @ join '' '' toks,
              shell = Some ''/bin/bash''\<rparr>"
    by (simp add: CallTool_def)
next
  assume "CallTool ''modify_tasks_bulk'' args = Inr iv"
  then have *: "modify_tasks_bulk args = Inr iv" by (simp add: CallTool_def)
  then show "prefix ''yes | task '' (command iv)" "shell iv = Some ''/bin/bash''"
    "\<exists>f toks. get_prop args ''filter'' = JStr f \<and> buildTaskModifyArgs args = Inr toks \<and>
         command iv = ''yes | task '' @ f @ '' modify '' @ join '' '' toks"
    by (auto simp: modify_tasks_bulk_Inr)
qed

text \<open>The statement at a valid bulk request with a date and a priority.\<close>

theorem bulk_always_piped_witness:
  "(\<exists>kvs. JObj [(''filter'', JStr ''status:pending''), (''due'', JStr ''eom''),
                 (''priority'', JStr ''H'')] = JObj kvs) \<and>
   list_all (\<lambda>f. accepts (snd f)
       (get_prop (JObj [(''filter'', JStr ''status:pending''), (''due'', JStr ''eom''),
                        (''priority'', JStr ''H'')]) (fst f))) modifyTasksBulkRequest \<and>
   list_all (\<lambda>f. \<forall>v. get_prop (JObj [(''filter'', JStr ''status:pending''), (''due'', JStr ''eom''),
                        (''priority'', JStr ''H'')]) f = JStr v \<longrightarrow> parseFlexibleDate v = Inr v)
      [''due'', ''start'', ''wait'', ''until'', ''scheduled''] \<and>
   CallTool ''modify_tasks_bulk''
     (JObj [(''filter'', JStr ''status:pending''), (''due'', JStr ''eom''),
            (''priority'', JStr ''H'')]) =
     Inr \<lparr>command = ''yes | task status:pending modify due:eom priority:H'',
          shell = Some ''/bin/bash''\<rparr> \<and>
   prefix ''yes | task '' ''yes | task status:pending modify due:eom priority:H''"
proof -
  let ?A = "JObj [(''filter'', JStr ''status:pending''), (''due'', JStr ''eom''),
                  (''priority'', JStr ''H'')]"
  have 1: "\<exists>kvs. ?A = JObj kvs" by simp
  have 2: "list_all (\<lambda>f. accepts (snd f) (get_prop ?A (fst f))) modifyTasksBulkRequest"
    by (simp add: modifyTasksBulkRequest_def modifyFields_def zPriority_def zProject_def zTags_def)
  have e: "parseFlexibleDate ''eom'' = Inr ''eom''" by code_simp
  have 3: "list_all (\<lambda>f. \<forall>v. get_prop ?A f = JStr v \<longrightarrow> parseFlexibleDate v = Inr v)
      [''due'', ''start'', ''wait'', ''until'', ''scheduled'']"
    by (simp add: e)
  have b: "buildTaskModifyArgs ?A = Inr [''due:eom'', ''priority:H'']" by code_simp
  from bulk_always_piped [of ?A] 1 2 3 obtain f toks where
    "get_prop ?A ''filter'' = JStr f" "buildTaskModifyArgs ?A = Inr toks"
    "CallTool ''modify_tasks_bulk'' ?A =
       Inr \<lparr>command = ''yes | task '' @ f @ '' modify '' @ join '' '' toks,
            shell = Some ''/bin/bash''\<rparr>"
    by blast
  with b have 4: "CallTool ''modify_tasks_bulk'' ?A =
     Inr \<lparr>command = ''yes | task status:pending modify due:eom priority:H'',
          shell = Some ''/bin/bash''\<rparr>"
    by simp
  from bulk_always_piped [of ?A "\<lparr>command = ''yes | task status:pending modify due:eom priority:H'',
          shell = Some ''/bin/bash''\<rparr>"] 4
  have 5: "prefix ''yes | task '' ''yes | task status:pending modify due:eom priority:H''"
    by simp
  from 1 2 3 4 5 show ?thesis by (intro conjI)
qed

text \<open>
  Claim C10. Every \<open>delete_task\<close> request that is an object with a string identifier
  runs \<^verbatim>\<open>task rc.confirmation=no <identifier> delete\<close>, and every \<open>undo_last\<close> request
  that is an object runs \<^verbatim>\<open>task rc.confirmation=no undo\<close>: the override token follows the
  engine name at once. Conversely every command either handler runs has this form.
\<close>

theorem confirmation_disabled:
  "((\<exists>kvs. args = JObj kvs) \<and> get_prop args ''identifier'' = JStr i \<longrightarrow>
      CallTool ''delete_task'' args =
        Inr \<lparr>command = ''task rc.confirmation=no '' @ i @ '' delete'', shell = None\<rparr>) \<and>
   ((\<exists>kvs. args = JObj kvs) \<longrightarrow>
      CallTool ''undo_last'' args =
        Inr \<lparr>command = ''task rc.confirmation=no undo'', shell = None\<rparr>) \<and>
   (CallTool ''delete_task'' args = Inr iv \<longrightarrow>
      prefix ''task rc.confirmation=no '' (command iv) \<and>
      (\<exists>i. get_prop args ''identifier'' = JStr i \<and>
           command iv = ''task rc.confirmation=no '' @ i @ '' delete'')) \<and>
   (CallTool ''undo_last'' args = Inr iv \<longrightarrow>
      prefix ''task rc.confirmation=no '' (command iv) \<and>
      command iv = ''task rc.confirmation=no undo'')"
proof (intro conjI impI)
  assume "(\<exists>kvs. args = JObj kvs) \<and> get_prop args ''identifier'' = JStr i"
  then have "delete_task args =
      Inr \<lparr>command = ''task rc.confirmation=no '' @ i @ '' delete'', shell = None\<rparr>"
    unfolding delete_task_Inr by simp
  then show "CallTool ''delete_task'' args =
      Inr \<lparr>command = ''task rc.confirmation=no '' @ i @ '' delete'', shell = None\<rparr>"
    by (simp add: CallTool_def)
next
  assume "\<exists>kvs. args = JObj kvs"
  then have "undo_last args = Inr \<lparr>command = ''task rc.confirmation=no undo'', shell = None\<rparr>"
    unfolding undo_last_Inr by simp
  then show "CallTool ''undo_last'' args =
      Inr \<lparr>command = ''task rc.confirmation=no undo'', shell = None\<rparr>"
    by (simp add: CallTool_def)
next
  assume "CallTool ''delete_task'' args = Inr iv"
  then have "delete_task args = Inr iv" by (simp add: CallTool_def)
  then show "prefix ''task rc.confirmation=no '' (command iv)"
    "\<exists>i. get_prop args ''identifier'' = JStr i \<and>
           command iv = ''task rc.confirmation=no '' @ i @ '' delete''"
    by (auto simp: delete_task_Inr)
next
  assume "CallTool ''undo_last'' args = Inr iv"
  then have "undo_last args = Inr iv" by (simp add: CallTool_def)
  then show "prefix ''task rc.confirmation=no '' (command iv)"
    "command iv = ''task rc.confirmation=no undo''"
    by (auto simp: undo_last_Inr)
qed

text \<open>The statement at the deletion of task 5 and at an undo.\<close>

theorem confirmation_disabled_witness:
  "(\<exists>kvs. JObj [(''identifier'', JStr ''5'')] = JObj kvs) \<and>
   get_prop (JObj [(''identifier'', JStr ''5'')]) ''identifier'' = JStr ''5'' \<and>
   CallTool ''delete_task'' (JObj [(''identifier'', JStr ''5'')]) =
     Inr \<lparr>command = ''task rc.confirmation=no 5 delete'', shell = None\<rparr> \<and>
   CallTool ''undo_last'' (JObj [(''identifier'', JStr ''5'')]) =
     Inr \<lparr>command = ''task rc.confirmation=no undo'', shell = None\<rparr> \<and>
   prefix ''task rc.confirmation=no '' ''task rc.confirmation=no 5 delete'' \<and>
   prefix ''task rc.confirmation=no '' ''task rc.confirmation=no undo''"
proof -
  let ?A = "JObj [(''identifier'', JStr ''5'')]"
  have 1: "\<exists>kvs. ?A = JObj kvs" by simp
  have 2: "get_prop ?A ''identifier'' = JStr ''5''" by simp
  note c = confirmation_disabled [of ?A "''5''"]
  from c [of "\<lparr>command = ''task rc.confirmation=no 5 delete'', shell = None\<rparr>"] 1 2
  have d: "CallTool ''delete_task'' ?A =
     Inr \<lparr>command = ''task rc.confirmation=no 5 delete'', shell = None\<rparr>"
    by simp
  from c [of "\<lparr>command = ''task rc.confirmation=no undo'', shell = None\<rparr>"] 1
  have u: "CallTool ''undo_last'' ?A =
     Inr \<lparr>command = ''task rc.confirmation=no undo'', shell = None\<rparr>"
    by simp
  from c [of "\<lparr>command = ''task rc.confirmation=no 5 delete'', shell = None\<rparr>"] d
  have 3: "prefix ''task rc.confirmation=no '' ''task rc.confirmation=no 5 delete''"
    by simp
  from c [of "\<lparr>command = ''task rc.confirmation=no undo'', shell = None\<rparr>"] u
  have 4: "prefix ''task rc.confirmation=no '' ''task rc.confirmation=no undo''"
    by simp
  from 1 2 d u 3 4 show ?thesis by (intro conjI)
qed

subsection \<open>The catalog\<close>

text \<open>
  Claim C9, as amended. The tool list has exactly 17 entries, with 17 different names, and
  the dispatcher answers \<open>UnknownTool\<close> exactly for the names that are not in the list.
\<close>

theorem catalog_has_17_operations:
  "length ListTools = 17 \<and> distinct (map fst ListTools) \<and>
   (\<forall>name args. (CallTool name args = Inl (UnknownTool name)) = (name \<notin> set (map fst ListTools)))"
proof (intro conjI allI)
  show "length ListTools = 17" by (simp add: ListTools_def)
  show "distinct (map fst ListTools)" by (simp add: ListTools_def)
  fix name args
  show "(CallTool name args = Inl (UnknownTool name)) = (name \<notin> set (map fst ListTools))"
    by (simp add: CallTool_def ListTools_def handlers_known)
qed

text \<open>Claim C9 as stated asks for 18 entries; the list has one fewer.\<close>

theorem catalog_not_18: "length ListTools \<noteq> 18"
  by (simp add: ListTools_def)

subsection \<open>Identifiers and filters\<close>

text \<open>
  Claim C3. An empty required text is meant to fail validation. \<open>modify_task\<close> and
  \<open>modify_tasks_bulk\<close> do reject it (\<open>modify_rejects_empty\<close>); the other eight
  operations accept it and run a command, evaluated here on each of them.
\<close>

theorem empty_required_text_accepted:
  "CallTool ''mark_task_done'' (JObj [(''identifier'', JStr '''')]) =
     Inr \<lparr>command = ''task  done'', shell = None\<rparr> \<and>
   CallTool ''get_task_info'' (JObj [(''identifier'', JStr '''')]) =
     Inr \<lparr>command = ''task  info'', shell = None\<rparr> \<and>
   CallTool ''delete_task'' (JObj [(''identifier'', JStr '''')]) =
     Inr \<lparr>command = ''task rc.confirmation=no  delete'', shell = None\<rparr> \<and>
   CallTool ''annotate_task'' (JObj [(''identifier'', JStr ''''), (''annotation'', JStr ''x'')]) =
     Inr \<lparr>command = ''task  annotate '' @ [SQ] @ ''x'' @ [SQ], shell = None\<rparr> \<and>
   CallTool ''append_task'' (JObj [(''identifier'', JStr ''''), (''text'', JStr ''x'')]) =
     Inr \<lparr>command = ''task  append '' @ [SQ] @ ''x'' @ [SQ], shell = None\<rparr> \<and>
   CallTool ''prepend_task'' (JObj [(''identifier'', JStr ''''), (''text'', JStr ''x'')]) =
     Inr \<lparr>command = ''task  prepend '' @ [SQ] @ ''x'' @ [SQ], shell = None\<rparr> \<and>
   CallTool ''duplicate_task'' (JObj [(''identifier'', JStr '''')]) =
     Inr \<lparr>command = ''task  duplicate'', shell = None\<rparr> \<and>
   CallTool ''add_task'' (JObj [(''description'', JStr '''')]) =
     Inr \<lparr>command = ''task add '' @ [SQ, SQ], shell = None\<rparr>"
  by (intro conjI; code_simp)

text \<open>
  Claim C4, as amended. Every command that \<open>mark_task_done\<close>, \<open>get_task_info\<close>,
  \<open>delete_task\<close>, \<open>annotate_task\<close>, \<open>append_task\<close>, \<open>prepend_task\<close> or
  \<open>duplicate_task\<close> runs carries the identifier exactly as given, and every command of
  \<open>modify_tasks_bulk\<close> carries the filter exactly as given, with single spaces between the
  tokens; \<open>modify_task\<close> carries its identifier shell-escaped.
\<close>

theorem identifier_and_filter_tokens:
  assumes "CallTool name args = Inr iv"
  shows
   "(name = ''mark_task_done'' \<longrightarrow>
       (\<exists>i. get_prop args ''identifier'' = JStr i \<and> command iv = ''task '' @ i @ '' done'')) \<and>
    (name = ''get_task_info'' \<longrightarrow>
       (\<exists>i. get_prop args ''identifier'' = JStr i \<and> command iv = ''task '' @ i @ '' info'')) \<and>
    (name = ''delete_task'' \<longrightarrow>
       (\<exists>i. get_prop args ''identifier'' = JStr i \<and>
          command iv = ''task rc.confirmation=no '' @ i @ '' delete'')) \<and>
    (name = ''annotate_task'' \<longrightarrow>
       (\<exists>i a. get_prop args ''identifier'' = JStr i \<and> get_prop args ''annotation'' = JStr a \<and>
          command iv = ''task '' @ i @ '' annotate '' @ escapeShellArg a)) \<and>
    (name = ''append_task'' \<longrightarrow>
       (\<exists>i a. get_prop args ''identifier'' = JStr i \<and> get_prop args ''text'' = JStr a \<and>
          command iv = ''task '' @ i @ '' append '' @ escapeShellArg a)) \<and>
    (name = ''prepend_task'' \<longrightarrow>
       (\<exists>i a. get_prop args ''identifier'' = JStr i \<and> get_prop args ''text'' = JStr a \<and>
          command iv = ''task '' @ i @ '' prepend '' @ escapeShellArg a)) \<and>
    (name = ''duplicate_task'' \<longrightarrow>
       (\<exists>i. get_prop args ''identifier'' = JStr i \<and> command iv = ''task '' @ i @ '' duplicate'')) \<and>
    (name = ''modify_tasks_bulk'' \<longrightarrow>
       (\<exists>f toks. get_prop args ''filter'' = JStr f \<and> buildTaskModifyArgs args = Inr toks \<and>
          command iv = ''yes | task '' @ f @ '' modify '' @ join '' '' toks)) \<and>
    (name = ''modify_task'' \<longrightarrow>
       (\<exists>i toks. get_prop args ''identifier'' = JStr i \<and> buildTaskModifyArgs args = Inr toks \<and>
          command iv = ''task '' @ escapeShellArg i @ '' modify '' @ join '' '' toks))"
  using assms
  by (auto simp: CallTool_def mark_task_done_Inr get_task_info_Inr delete_task_Inr
        annotate_task_Inr append_task_Inr prepend_task_Inr duplicate_task_Inr
        modify_tasks_bulk_Inr modify_task_Inr)

text \<open>The statement at task 5, marked done and modified.\<close>

theorem identifier_and_filter_tokens_witness:
  "CallTool ''mark_task_done'' (JObj [(''identifier'', JStr ''5'')]) =
     Inr \<lparr>command = ''task 5 done'', shell = None\<rparr> \<and>
   (\<exists>i. get_prop (JObj [(''identifier'', JStr ''5'')]) ''identifier'' = JStr i \<and>
        ''task 5 done'' = ''task '' @ i @ '' done'') \<and>
   CallTool ''modify_task'' (JObj [(''identifier'', JStr ''5''), (''priority'', JStr ''H'')]) =
     Inr \<lparr>command = ''task '' @ [SQ] @ ''5'' @ [SQ] @ '' modify priority:H'', shell = None\<rparr> \<and>
   (\<exists>i toks. get_prop (JObj [(''identifier'', JStr ''5''), (''priority'', JStr ''H'')])
                 ''identifier'' = JStr i \<and>
        buildTaskModifyArgs (JObj [(''identifier'', JStr ''5''), (''priority'', JStr ''H'')]) =
          Inr toks \<and>
        ''task '' @ [SQ] @ ''5'' @ [SQ] @ '' modify priority:H'' =
          ''task '' @ escapeShellArg i @ '' modify '' @ join '' '' toks)"
proof -
  have h: "CallTool ''mark_task_done'' (JObj [(''identifier'', JStr ''5'')]) =
     Inr \<lparr>command = ''task 5 done'', shell = None\<rparr>"
    by code_simp
  have m: "CallTool ''modify_task'' (JObj [(''identifier'', JStr ''5''), (''priority'', JStr ''H'')]) =
     Inr \<lparr>command = ''task '' @ [SQ] @ ''5'' @ [SQ] @ '' modify priority:H'', shell = None\<rparr>"
    by code_simp
  from identifier_and_filter_tokens [OF h] h
  have 1: "\<exists>i. get_prop (JObj [(''identifier'', JStr ''5'')]) ''identifier'' = JStr i \<and>
        ''task 5 done'' = ''task '' @ i @ '' done''"
    by simp
  from identifier_and_filter_tokens [OF m]
  have 2: "\<exists>i toks. get_prop (JObj [(''identifier'', JStr ''5''), (''priority'', JStr ''H'')])
                 ''identifier'' = JStr i \<and>
        buildTaskModifyArgs (JObj [(''identifier'', JStr ''5''), (''priority'', JStr ''H'')]) =
          Inr toks \<and>
        ''task '' @ [SQ] @ ''5'' @ [SQ] @ '' modify priority:H'' =
          ''task '' @ escapeShellArg i @ '' modify '' @ join '' '' toks"
    by simp
  from h m 1 2 show ?thesis by (intro conjI)
qed

text \<open>
  Claim C4 as stated fails on \<open>modify_task\<close>: the identifier \<^verbatim>\<open>a'b\<close> is not even a
  substring of the command line, which carries \<^verbatim>\<open>'a'\''b'\<close>.
\<close>

theorem identifier_escaped_on_modify:
  "CallTool ''modify_task'' (JObj [(''identifier'', JStr (''a'' @ [SQ] @ ''b''))]) =
     Inr \<lparr>command = ''task '' @ [SQ] @ ''a'' @ [SQ, BS, SQ, SQ] @ ''b'' @ [SQ] @ '' modify '',
          shell = None\<rparr> \<and>
   \<not> sublist (''a'' @ [SQ] @ ''b'')
       (''task '' @ [SQ] @ ''a'' @ [SQ, BS, SQ, SQ] @ ''b'' @ [SQ] @ '' modify '')"
  by (intro conjI; code_simp)

subsection \<open>The words of the patterns\<close>

lemma star_atoms: "star {[c] |c. c \<in> S} = {w. set w \<subseteq> S}"
proof (intro set_eqI iffI)
  fix w assume "w \<in> star {[c] |c. c \<in> S}"
  then show "w \<in> {w. set w \<subseteq> S}" by (induction rule: star.induct) auto
next
  fix w assume "w \<in> {w. set w \<subseteq> S}"
  then have "set w \<subseteq> S" by simp
  then show "w \<in> star {[c] |c. c \<in> S}"
  proof (induction w)
    case Nil
    show ?case by (rule star.star_Nil)
  next
    case (Cons c w)
    then have "[c] \<in> {[c] |c. c \<in> S}" "w \<in> star {[c] |c. c \<in> S}" by auto
    then have "[c] @ w \<in> star {[c] |c. c \<in> S}" by (rule star.star_app)
    then show ?case by simp
  qed
qed

lemma Cons_in_conc_atoms [simp]:
  "c # w \<in> conc {[a] |a. a \<in> S} L \<longleftrightarrow> c \<in> S \<and> w \<in> L"
  by (auto simp: Cons_in_conc)

lemma Nil_in_conc [simp]: "[] \<in> conc A B \<longleftrightarrow> [] \<in> A \<and> [] \<in> B"
  by (auto simp: in_conc)

lemma lang_Plus_Atom: "lang (Plus (Atom cs)) = {w. w \<noteq> [] \<and> set w \<subseteq> set cs}"
proof -
  have "w \<in> conc {[c] |c. c \<in> set cs} {w. set w \<subseteq> set cs} \<longleftrightarrow> w \<noteq> [] \<and> set w \<subseteq> set cs"
    for w by (cases w) auto
  then show ?thesis by (auto simp: Plus_def star_atoms)
qed

lemma tagPattern_iff: "regex_test tagPattern t \<longleftrightarrow> tag_ok t"
  by (auto simp: regex_test_lang tagPattern_def lang_Plus_Atom tag_ok_def list_all_iff)

subsection \<open>Tags\<close>

lemma tags_schema:
  "(name, shape) \<in> set ListTools \<Longrightarrow> (f, sch) \<in> set shape \<Longrightarrow>
   f = ''tags'' \<or> f = ''tags_remove'' \<Longrightarrow> sch = zTags"
  by (auto simp: ListTools_def listPendingTasksRequest_def markTaskDoneRequest_def
        addTaskRequest_def modifyTaskRequest_def modifyTasksBulkRequest_def modifyFields_def
        getTaskInfoRequest_def countTasksRequest_def listTasksFilteredRequest_def
        deleteTaskRequest_def annotateTaskRequest_def appendTaskRequest_def
        prependTaskRequest_def duplicateTaskRequest_def undoLastRequest_def
        builtinReportRequest_def visualizationReportRequest_def customReportRequest_def)

text \<open>
  Claim C7, as amended. In every operation of the catalog, the schema of a \<open>tags\<close> or
  \<open>tags_remove\<close> field accepts a tag \<open>t\<close> exactly when \<open>t\<close> is a non-empty text of
  lowercase letters, digits, \<^verbatim>\<open>@\<close>, \<^verbatim>\<open>_\<close> and \<^verbatim>\<open>-\<close>; the field as a whole is accepted when
  it is absent or an array of such tags.
\<close>

theorem tags_lowercase_only:
  assumes "(name, shape) \<in> set ListTools" and "(f, sch) \<in> set shape"
      and "f = ''tags'' \<or> f = ''tags_remove''"
  shows "(accepts sch (JArr [JStr t]) \<longleftrightarrow> tag_ok t) \<and>
         (accepts sch v \<longleftrightarrow>
            v = JUndefined \<or> (\<exists>ts. v = JArr ts \<and> list_all (\<lambda>x. \<exists>t. x = JStr t \<and> tag_ok t) ts))"
proof -
  have "accepts (ZString [ZRegex tagPattern]) = (\<lambda>x. \<exists>t. x = JStr t \<and> tag_ok t)"
    by (simp add: fun_eq_iff tagPattern_iff)
  moreover from assms have "sch = zTags" by (rule tags_schema)
  ultimately show ?thesis by (simp add: zTags_def)
qed

text \<open>The statement at the \<open>tags_remove\<close> field of \<open>modify_task\<close>, on a tag it accepts and on one it rejects.\<close>

theorem tags_lowercase_only_witness:
  "(''modify_task'', modifyTaskRequest) \<in> set ListTools \<and>
   (''tags_remove'', zTags) \<in> set modifyTaskRequest \<and>
   accepts zTags (JArr [JStr ''next-week_@home2'']) \<and> tag_ok ''next-week_@home2'' \<and>
   \<not> accepts zTags (JArr [JStr ''Work'']) \<and> \<not> tag_ok ''Work''"
proof -
  have 1: "(''modify_task'', modifyTaskRequest) \<in> set ListTools"
    by (simp add: ListTools_def)
  have 2: "(''tags_remove'', zTags) \<in> set modifyTaskRequest"
    by (simp add: modifyTaskRequest_def modifyFields_def)
  have 3: "tag_ok ''next-week_@home2''" by code_simp
  have 4: "\<not> tag_ok ''Work''" by code_simp
  from tags_lowercase_only [OF 1 2, of "''next-week_@home2''"] 3
  have 5: "accepts zTags (JArr [JStr ''next-week_@home2''])" by simp
  from tags_lowercase_only [OF 1 2, of "''Work''"] 4
  have 6: "\<not> accepts zTags (JArr [JStr ''Work''])" by simp
  from 1 2 3 4 5 6 show ?thesis by (intro conjI)
qed

text \<open>
  Claim C7 as stated has uppercase letters accepted: the tag \<^verbatim>\<open>Work\<close> matches the
  specification's pattern and makes \<open>modify_task\<close> and \<open>add_task\<close> fail validation.
\<close>

theorem uppercase_tag_rejected:
  "spec_tag_ok ''Work'' \<and>
   CallTool ''modify_task'' (JObj [(''identifier'', JStr ''1''), (''tags'', JArr [JStr ''Work''])]) =
     Inl (InvalidArguments ''modify_task'') \<and>
   CallTool ''add_task'' (JObj [(''description'', JStr ''x''), (''tags'', JArr [JStr ''Work''])]) =
     Inl (InvalidArguments ''add_task'')"
  by (intro conjI; code_simp)

subsection \<open>Fields that are not free text\<close>

lemma date_token_raw:
  "date_token data f = Inr toks \<Longrightarrow> get_prop data f = JStr v \<Longrightarrow> v \<noteq> [] \<Longrightarrow>
   toks = [f @ '':'' @ v]"
  by (auto simp: date_token_def split: sum.splits)

lemma field_token_raw:
  "get_prop data f = JStr v \<Longrightarrow> v \<noteq> [] \<Longrightarrow> field_token data f = [f @ '':'' @ v]"
  by (simp add: field_token_def)

lemma tag_tokens_raw:
  "get_prop data f = JArr ts \<Longrightarrow> JStr t \<in> set ts \<Longrightarrow> sign @ t \<in> set (tag_tokens data f sign)"
  by (force simp: tag_tokens_def)

lemma buildTaskModifyArgs_Inr:
  "buildTaskModifyArgs data = Inr toks \<Longrightarrow>
   \<exists>due start wait until scheduled a b c d.
     date_token data ''due'' = Inr due \<and> date_token data ''start'' = Inr start \<and>
     date_token data ''wait'' = Inr wait \<and> date_token data ''until'' = Inr until \<and>
     date_token data ''scheduled'' = Inr scheduled \<and>
     toks = a @ due @ field_token data ''priority'' @ start @ b @ wait @ until @ scheduled
            @ field_token data ''project'' @ c @ tag_tokens data ''tags'' ''+''
            @ tag_tokens data ''tags_remove'' ''-'' @ d"
  unfolding buildTaskModifyArgs_def
  by (simp split: sum.splits) blast

lemma add_task_args_Inr:
  "add_task_args data = Inr toks \<Longrightarrow>
   \<exists>due. date_token data ''due'' = Inr due \<and>
     toks = [''add'', escapeShellArg (str_of (get_prop data ''description''))] @ due
            @ field_token data ''priority''
            @ (if truthy (get_prop data ''project'')
               then [''project:'' @ escapeShellArg (str_of (get_prop data ''project''))] else [])
            @ (if truthy (get_prop data ''tags'')
               then map (\<lambda>tag. ''+'' @ escapeShellArg (str_of tag)) (elems (get_prop data ''tags''))
               else [])"
  unfolding add_task_args_def
  by (auto split: sum.splits)

lemma modify_tokens_raw:
  assumes "buildTaskModifyArgs data = Inr toks"
  shows "f \<in> set [''due'', ''start'', ''wait'', ''until'', ''scheduled'', ''priority'', ''project''] \<Longrightarrow>
           get_prop data f = JStr v \<Longrightarrow> v \<noteq> [] \<Longrightarrow> f @ '':'' @ v \<in> set toks"
    and "get_prop data ''tags'' = JArr ts \<Longrightarrow> JStr t \<in> set ts \<Longrightarrow> ''+'' @ t \<in> set toks"
    and "get_prop data ''tags_remove'' = JArr ts \<Longrightarrow> JStr t \<in> set ts \<Longrightarrow> ''-'' @ t \<in> set toks"
proof -
  from buildTaskModifyArgs_Inr [OF assms] obtain due start wait until scheduled a b c d where
    dt: "date_token data ''due'' = Inr due" "date_token data ''start'' = Inr start"
        "date_token data ''wait'' = Inr wait" "date_token data ''until'' = Inr until"
        "date_token data ''scheduled'' = Inr scheduled"
    and toks: "toks = a @ due @ field_token data ''priority'' @ start @ b @ wait @ until
            @ scheduled @ field_token data ''project'' @ c @ tag_tokens data ''tags'' ''+''
            @ tag_tokens data ''tags_remove'' ''-'' @ d"
    by blast
  show "f @ '':'' @ v \<in> set toks"
    if "f \<in> set [''due'', ''start'', ''wait'', ''until'', ''scheduled'', ''priority'', ''project'']"
       "get_prop data f = JStr v" "v \<noteq> []"
    using that dt date_token_raw [of data f _ v] field_token_raw [of data f v]
    by (auto simp: toks)
  show "''+'' @ t \<in> set toks" if "get_prop data ''tags'' = JArr ts" "JStr t \<in> set ts"
    using tag_tokens_raw [OF that, of "''+''"] by (simp add: toks)
  show "''-'' @ t \<in> set toks" if "get_prop data ''tags_remove'' = JArr ts" "JStr t \<in> set ts"
    using tag_tokens_raw [OF that, of "''-''"] by (simp add: toks)
qed

lemma add_tokens:
  assumes "add_task_args data = Inr toks"
  shows "f \<in> set [''due'', ''priority''] \<Longrightarrow>
           get_prop data f = JStr v \<Longrightarrow> v \<noteq> [] \<Longrightarrow> f @ '':'' @ v \<in> set toks"
    and "get_prop data ''project'' = JStr v \<Longrightarrow> v \<noteq> [] \<Longrightarrow>
           ''project:'' @ escapeShellArg v \<in> set toks"
    and "get_prop data ''tags'' = JArr ts \<Longrightarrow> JStr t \<in> set ts \<Longrightarrow>
           ''+'' @ escapeShellArg t \<in> set toks"
proof -
  from add_task_args_Inr [OF assms] obtain due where
    dt: "date_token data ''due'' = Inr due"
    and toks: "toks = [''add'', escapeShellArg (str_of (get_prop data ''description''))] @ due
            @ field_token data ''priority''
            @ (if truthy (get_prop data ''project'')
               then [''project:'' @ escapeShellArg (str_of (get_prop data ''project''))] else [])
            @ (if truthy (get_prop data ''tags'')
               then map (\<lambda>tag. ''+'' @ escapeShellArg (str_of tag)) (elems (get_prop data ''tags''))
               else [])"
    by blast
  show "f @ '':'' @ v \<in> set toks"
    if "f \<in> set [''due'', ''priority'']" "get_prop data f = JStr v" "v \<noteq> []"
    using that dt date_token_raw [of data f _ v] field_token_raw [of data f v]
    by (auto simp: toks)
  show "''project:'' @ escapeShellArg v \<in> set toks"
    if "get_prop data ''project'' = JStr v" "v \<noteq> []"
    using that by (simp add: toks)
  show "''+'' @ escapeShellArg t \<in> set toks"
    if "get_prop data ''tags'' = JArr ts" "JStr t \<in> set ts"
    using that by (force simp: toks)
qed


lemma add_task_Inr:
  "add_task args = Inr iv \<longleftrightarrow>
     safeParse addTaskRequest args \<noteq> None \<and>
     (\<exists>toks. add_task_args args = Inr toks \<and>
        iv = \<lparr>command = ''task '' @ join '' '' toks, shell = None\<rparr>)"
proof (cases "safeParse addTaskRequest args")
  case None
  then show ?thesis by (simp add: add_task_def)
next
  case (Some data)
  have "get_prop data ''description'' = get_prop args ''description''"
       "get_prop data ''due'' = get_prop args ''due''"
       "get_prop data ''priority'' = get_prop args ''priority''"
       "get_prop data ''project'' = get_prop args ''project''"
       "get_prop data ''tags'' = get_prop args ''tags''"
    by (simp_all add: parsed_get_prop [OF Some] addTaskRequest_def)
  then have "add_task_args data = add_task_args args"
    unfolding add_task_args_def date_token_def field_token_def by (simp only:)
  then show ?thesis using Some
    by (auto simp: add_task_def execSync_def split: sum.splits)
qed

lemma filter_args_parsed:
  "safeParse listPendingTasksRequest args = Some data \<Longrightarrow>
     get_next_tasks_args data = get_next_tasks_args args"
  "safeParse countTasksRequest args = Some data \<Longrightarrow>
     count_tasks_args data = count_tasks_args args"
  "safeParse listTasksFilteredRequest args = Some data \<Longrightarrow>
     list_tasks_filtered_args data = list_tasks_filtered_args args"
  "safeParse builtinReportRequest args = Some data \<Longrightarrow>
     builtin_report_args data = builtin_report_args args"
  "safeParse visualizationReportRequest args = Some data \<Longrightarrow>
     visualization_report_args data = visualization_report_args args"
  unfolding get_next_tasks_args_def count_tasks_args_def list_tasks_filtered_args_def
    builtin_report_args_def visualization_report_args_def field_token_def tag_tokens_def
  by (simp_all add: parsed_get_prop listPendingTasksRequest_def countTasksRequest_def
        listTasksFilteredRequest_def builtinReportRequest_def visualizationReportRequest_def)

lemma get_next_tasks_Inr:
  "get_next_tasks args = Inr iv \<Longrightarrow>
     command iv = ''task limit: '' @ join '' '' (get_next_tasks_args args) @ '' next''"
  by (auto simp: get_next_tasks_def execSync_def filter_args_parsed split: option.splits)

lemma count_tasks_Inr:
  "count_tasks args = Inr iv \<Longrightarrow>
     command iv = ''task '' @ join '' '' (count_tasks_args args) @ '' count''"
  by (auto simp: count_tasks_def execSync_def filter_args_parsed split: option.splits)

lemma list_tasks_filtered_Inr:
  "list_tasks_filtered args = Inr iv \<Longrightarrow>
     (\<exists>report. command iv = ''task '' @ join '' '' (list_tasks_filtered_args args) @ '' '' @ report)"
  by (auto simp: list_tasks_filtered_def execSync_def filter_args_parsed split: option.splits)

lemma builtin_report_Inr:
  "builtin_report args = Inr iv \<Longrightarrow>
     (\<exists>report. command iv = ''task '' @ join '' '' (builtin_report_args args) @ '' '' @ report)"
  by (auto simp: builtin_report_def execSync_def filter_args_parsed split: option.splits)

lemma visualization_report_Inr:
  "visualization_report args = Inr iv \<Longrightarrow>
     (\<exists>report. command iv = ''task '' @ join '' '' (visualization_report_args args) @ '' '' @ report)"
  by (auto simp: visualization_report_def execSync_def filter_args_parsed split: option.splits)

lemma raw_field_append:
  "raw_field args f xs \<Longrightarrow> raw_field args f (xs @ ys)"
  "raw_field args f ys \<Longrightarrow> raw_field args f (xs @ ys)"
  by (auto simp: raw_field_def)

lemma raw_tags_append:
  "raw_tags args f sign xs \<Longrightarrow> raw_tags args f sign (xs @ ys)"
  "raw_tags args f sign ys \<Longrightarrow> raw_tags args f sign (xs @ ys)"
  by (auto simp: raw_tags_def)

lemma raw_field_token: "raw_field args f (field_token args f)"
  by (simp add: raw_field_def field_token_def)

lemma raw_tag_tokens: "raw_tags args f sign (tag_tokens args f sign)"
  using tag_tokens_raw [of args f] by (auto simp: raw_tags_def)

lemma filter_args_raw:
  "raw_field args ''project'' (get_next_tasks_args args)"
  "raw_tags args ''tags'' ''+'' (get_next_tasks_args args)"
  "raw_field args ''project'' (count_tasks_args args)"
  "raw_field args ''priority'' (count_tasks_args args)"
  "raw_tags args ''tags'' ''+'' (count_tasks_args args)"
  "raw_field args ''project'' (list_tasks_filtered_args args)"
  "raw_field args ''priority'' (list_tasks_filtered_args args)"
  "raw_tags args ''tags'' ''+'' (list_tasks_filtered_args args)"
  "raw_field args ''project'' (builtin_report_args args)"
  "raw_field args ''priority'' (builtin_report_args args)"
  "raw_tags args ''tags'' ''+'' (builtin_report_args args)"
  "raw_field args ''project'' (visualization_report_args args)"
  "raw_tags args ''tags'' ''+'' (visualization_report_args args)"
  unfolding get_next_tasks_args_def count_tasks_args_def list_tasks_filtered_args_def
    builtin_report_args_def visualization_report_args_def
  by (blast intro: raw_field_append raw_tags_append raw_field_token raw_tag_tokens)+


lemma modify_tokens_fields:
  assumes "buildTaskModifyArgs args = Inr toks"
  shows "list_all (\<lambda>f. raw_field args f toks)
           [''due'', ''start'', ''wait'', ''until'', ''scheduled'', ''priority'', ''project'']"
    and "raw_tags args ''tags'' ''+'' toks"
    and "raw_tags args ''tags_remove'' ''-'' toks"
proof -
  show "list_all (\<lambda>f. raw_field args f toks)
           [''due'', ''start'', ''wait'', ''until'', ''scheduled'', ''priority'', ''project'']"
    unfolding list_all_iff raw_field_def
    using modify_tokens_raw(1) [OF assms] by (intro ballI allI impI) (elim conjE)
  show "raw_tags args ''tags'' ''+'' toks"
    unfolding raw_tags_def
    using modify_tokens_raw(2) [OF assms] by (intro allI impI) (elim conjE)
  show "raw_tags args ''tags_remove'' ''-'' toks"
    unfolding raw_tags_def
    using modify_tokens_raw(3) [OF assms] by (intro allI impI) (elim conjE)
qed

lemma add_tokens_fields:
  assumes "add_task_args args = Inr toks"
  shows "raw_field args ''due'' toks" and "raw_field args ''priority'' toks"
    and "escaped_field args ''project'' toks" and "escaped_tags args ''tags'' ''+'' toks"
proof -
  have "raw_field args f toks" if "f \<in> set [''due'', ''priority'']" for f
    unfolding raw_field_def
    using add_tokens(1) [OF assms that] by (intro allI impI) (elim conjE)
  then show "raw_field args ''due'' toks" and "raw_field args ''priority'' toks"
    by simp_all
  show "escaped_field args ''project'' toks"
    unfolding escaped_field_def
    using add_tokens(2) [OF assms] by (intro allI impI) (elim conjE, simp)
  show "escaped_tags args ''tags'' ''+'' toks"
    unfolding escaped_tags_def
    using add_tokens(3) [OF assms] by (intro allI impI) (elim conjE)
qed

lemma add_command:
  assumes "CallTool ''add_task'' args = Inr iv"
  shows "\<exists>toks. add_task_args args = Inr toks \<and> command iv = ''task '' @ join '' '' toks \<and>
          raw_field args ''due'' toks \<and> raw_field args ''priority'' toks \<and>
          escaped_field args ''project'' toks \<and> escaped_tags args ''tags'' ''+'' toks"
proof -
  from assms have "add_task args = Inr iv" by (simp add: CallTool_def)
  then obtain toks where t: "add_task_args args = Inr toks"
    and c: "iv = \<lparr>command = ''task '' @ join '' '' toks, shell = None\<rparr>"
    unfolding add_task_Inr by (elim conjE exE)
  from c have "command iv = ''task '' @ join '' '' toks" by simp
  with t add_tokens_fields [OF t] show ?thesis by (intro exI conjI)
qed

lemma modify_command:
  assumes "CallTool name args = Inr iv"
    and "name = ''modify_task'' \<or> name = ''modify_tasks_bulk''"
  shows "\<exists>pre toks. buildTaskModifyArgs args = Inr toks \<and>
          command iv = pre @ '' modify '' @ join '' '' toks \<and>
          list_all (\<lambda>f. raw_field args f toks)
            [''due'', ''start'', ''wait'', ''until'', ''scheduled'', ''priority'', ''project''] \<and>
          raw_tags args ''tags'' ''+'' toks \<and> raw_tags args ''tags_remove'' ''-'' toks"
  using assms(2)
proof
  assume "name = ''modify_task''"
  with assms(1) have "modify_task args = Inr iv" by (simp add: CallTool_def)
  then obtain i toks where t: "buildTaskModifyArgs args = Inr toks"
    and c: "iv = \<lparr>command = ''task '' @ escapeShellArg i @ '' modify '' @ join '' '' toks,
              shell = None\<rparr>"
    unfolding modify_task_Inr by (elim conjE exE)
  from c have "command iv = (''task '' @ escapeShellArg i) @ '' modify '' @ join '' '' toks"
    by simp
  with t modify_tokens_fields [OF t] show ?thesis by (intro exI conjI)
next
  assume "name = ''modify_tasks_bulk''"
  with assms(1) have "modify_tasks_bulk args = Inr iv" by (simp add: CallTool_def)
  then obtain f toks where t: "buildTaskModifyArgs args = Inr toks"
    and c: "iv = \<lparr>command = ''yes | task '' @ f @ '' modify '' @ join '' '' toks,
              shell = Some ''/bin/bash''\<rparr>"
    unfolding modify_tasks_bulk_Inr by (elim conjE exE)
  from c have "command iv = (''yes | task '' @ f) @ '' modify '' @ join '' '' toks"
    by simp
  with t modify_tokens_fields [OF t] show ?thesis by (intro exI conjI)
qed




subsection \<open>The date patterns in plain terms\<close>

text \<open>
  Each of the six patterns of \<open>parseFlexibleDate\<close> accepts exactly the texts of the
  corresponding plain description: the languages of the patterns are computed as sets of
  words with a given digit shape or a given lowercase form.
\<close>

lemma conc_map: "conc {w. map f w = a} {w. map f w = b} = {w. map f w = a @ b}"
proof (intro set_eqI iffI)
  fix w assume "w \<in> conc {w. map f w = a} {w. map f w = b}"
  then show "w \<in> {w. map f w = a @ b}" by (auto simp: in_conc)
next
  fix w assume "w \<in> {w. map f w = a @ b}"
  then obtain us vs where "w = us @ vs" "map f us = a" "map f vs = b"
    by (auto simp: map_eq_append_conv)
  then show "w \<in> conc {w. map f w = a} {w. map f w = b}"
    unfolding in_conc by blast
qed

lemma conc_Un: "conc A (B \<union> C) = conc A B \<union> conc A C" "conc (A \<union> B) C = conc A C \<union> conc B C"
  unfolding conc_def by blast+

lemma conc_empty: "conc A {} = {}" "conc {} A = {}"
  unfolding conc_def by blast+

lemma Nil_map: "{[]} = {w. map f w = []}"
  by auto

lemma lang_Atom_map:
  assumes "\<And>x. f x = c \<longleftrightarrow> x \<in> set cs"
  shows "lang (Atom cs) = {w. map f w = [c]}"
  using assms by (auto simp: map_eq_Cons_conv)

lemma lower_facts:
  "list_all (\<lambda>c. c \<notin> set upper_chars \<and> other_case c \<in> set upper_chars \<and>
                   other_case (other_case c) = c) lower_chars"
  by code_simp

lemma upper_facts: "list_all (\<lambda>u. other_case (other_case u) = u) upper_chars"
  by code_simp

lemma to_lower_eq:
  assumes "c \<in> set lower_chars"
  shows "to_lower x = c \<longleftrightarrow> x = c \<or> x = other_case c"
proof -
  from assms lower_facts have c: "c \<notin> set upper_chars" "other_case c \<in> set upper_chars"
    "other_case (other_case c) = c"
    by (auto simp: list_all_iff)
  show ?thesis
  proof (cases "x \<in> set upper_chars")
    case True
    with upper_facts have "other_case (other_case x) = x" by (auto simp: list_all_iff)
    with True c show ?thesis by (auto simp: to_lower_def)
  next
    case False
    with c show ?thesis by (auto simp: to_lower_def)
  qed
qed

lemma shape_digit: "lang digit = {w. digit_shape w = ''0''}"
  unfolding digit_def digit_shape_def
  by (rule lang_Atom_map) (auto simp: digit_chars_def)

lemma shape_ch:
  "c \<notin> set digit_chars \<Longrightarrow> lang (ch c) = {w. digit_shape w = [c]}"
  unfolding ch_def digit_shape_def
  by (rule lang_Atom_map) (auto simp: digit_chars_def)

lemma shape_sign: "lang (Atom ''+-'') = {w. digit_shape w = ''+''} \<union> {w. digit_shape w = ''-''}"
proof -
  have "lang (Atom ''+-'') = lang (ch CHR ''+'') \<union> lang (ch CHR ''-'')"
    by (auto simp: ch_def)
  also have "lang (ch CHR ''+'') = {w. digit_shape w = ''+''}"
    by (rule shape_ch) (simp add: digit_chars_def)
  also have "lang (ch CHR ''-'') = {w. digit_shape w = ''-''}"
    by (rule shape_ch) (simp add: digit_chars_def)
  finally show ?thesis .
qed

lemma shape_conc:
  "conc {w. digit_shape w = a} {w. digit_shape w = b} = {w. digit_shape w = a @ b}"
  unfolding digit_shape_def by (rule conc_map)

lemma shape_Nil: "{[]} = {w. digit_shape w = []}"
  unfolding digit_shape_def by (rule Nil_map)

lemma lang_Opt: "lang (Opt r) = {[]} \<union> lang r"
  by (simp add: Opt_def)

lemma lang_isoRegex: "lang isoRegex = {w. digit_shape w \<in> set iso_shapes}"
proof -
  have nd: "CHR ''-'' \<notin> set digit_chars" "CHR ''T'' \<notin> set digit_chars"
    "CHR '':'' \<notin> set digit_chars" "CHR ''.'' \<notin> set digit_chars" "CHR ''Z'' \<notin> set digit_chars"
    by (simp_all add: digit_chars_def)
  have "lang isoRegex =
    {w. digit_shape w = ''0000-00-00''} \<union>
    ({w. digit_shape w = ''0000-00-00T00:00:00''} \<union>
     {w. digit_shape w = ''0000-00-00T00:00:00.000''} \<union>
     ({w. digit_shape w = ''0000-00-00T00:00:00Z''} \<union>
      {w. digit_shape w = ''0000-00-00T00:00:00.000Z''} \<union>
      ({w. digit_shape w = ''0000-00-00T00:00:00+00:00''} \<union>
       {w. digit_shape w = ''0000-00-00T00:00:00.000+00:00''} \<union>
       ({w. digit_shape w = ''0000-00-00T00:00:00-00:00''} \<union>
        {w. digit_shape w = ''0000-00-00T00:00:00.000-00:00''}))))"
    unfolding isoRegex_def
    by (simp add: lang_Opt shape_digit shape_ch [OF nd(1)] shape_ch [OF nd(2)] shape_ch [OF nd(3)]
          shape_ch [OF nd(4)] shape_ch [OF nd(5)] shape_sign shape_Nil shape_conc conc_Un
          del: lang.simps(3))
  also have "\<dots> = {w. digit_shape w \<in> set iso_shapes}"
    by (auto simp: iso_shapes_def)
  finally show ?thesis .
qed


lemma isoRegex_iff: "regex_test isoRegex v \<longleftrightarrow> is_iso v"
  by (simp add: regex_test_lang lang_isoRegex is_iso_def)

lemma lower_conc:
  "conc {w. lower_str w = a} {w. lower_str w = b} = {w. lower_str w = a @ b}"
  unfolding lower_str_def by (rule conc_map)

lemma lang_ch_ci:
  assumes "c \<in> set lower_chars"
  shows "lang (ch_ci c) = {w. lower_str w = [c]}"
  unfolding ch_ci_def lower_str_def
  by (rule lang_Atom_map) (simp add: to_lower_eq [OF assms])

lemma lang_lit_ci:
  assumes "set s \<subseteq> set lower_chars"
  shows "lang (lit_ci s) = {w. lower_str w = s}"
  using assms
proof (induction s)
  case Nil
  show ?case by (auto simp: lit_ci_def lower_str_def)
next
  case (Cons c s)
  then have "lang (lit_ci s) = {w. lower_str w = s}" "lang (ch_ci c) = {w. lower_str w = [c]}"
    by (simp_all add: lang_ch_ci)
  then have "lang (lit_ci (c # s)) = conc {w. lower_str w = [c]} {w. lower_str w = s}"
    by (simp add: lit_ci_def)
  then show ?case by (simp add: lower_conc)
qed

lemma lang_Alts_ci:
  assumes "list_all (\<lambda>s. set s \<subseteq> set lower_chars) names"
  shows "lang (Alts (map lit_ci names)) = {w. lower_str w \<in> set names}"
  using assms by (induction names) (auto simp: lang_lit_ci)

lemma named_iff:
  "regex_test specialDates v \<longleftrightarrow> lower_str v \<in> set named_dates"
  "regex_test dayNames v \<longleftrightarrow> lower_str v \<in> set weekday_names"
  "regex_test monthNames v \<longleftrightarrow> lower_str v \<in> set month_names"
proof -
  have "list_all (\<lambda>s. set s \<subseteq> set lower_chars) named_dates"
    "list_all (\<lambda>s. set s \<subseteq> set lower_chars) weekday_names"
    "list_all (\<lambda>s. set s \<subseteq> set lower_chars) month_names"
    by (simp_all add: named_dates_def weekday_names_def month_names_def lower_chars_def)
  then have "lang (Alts (map lit_ci named_dates)) = {w. lower_str w \<in> set named_dates}"
    "lang (Alts (map lit_ci weekday_names)) = {w. lower_str w \<in> set weekday_names}"
    "lang (Alts (map lit_ci month_names)) = {w. lower_str w \<in> set month_names}"
    by (simp_all only: lang_Alts_ci)
  then show "regex_test specialDates v \<longleftrightarrow> lower_str v \<in> set named_dates"
    "regex_test dayNames v \<longleftrightarrow> lower_str v \<in> set weekday_names"
    "regex_test monthNames v \<longleftrightarrow> lower_str v \<in> set month_names"
    unfolding regex_test_lang specialDates_def dayNames_def monthNames_def
      named_dates_def weekday_names_def month_names_def
    by simp_all
qed


lemma in_conc_atoms_right:
  "w \<in> conc L {[a] |a. a \<in> S} \<longleftrightarrow> w \<noteq> [] \<and> butlast w \<in> L \<and> last w \<in> S"
proof
  assume "w \<in> conc L {[a] |a. a \<in> S}"
  then obtain u a where "w = u @ [a]" "u \<in> L" "a \<in> S" by (auto simp: in_conc)
  then show "w \<noteq> [] \<and> butlast w \<in> L \<and> last w \<in> S" by simp
next
  assume a: "w \<noteq> [] \<and> butlast w \<in> L \<and> last w \<in> S"
  then have "w = butlast w @ [last w]" by simp
  with a show "w \<in> conc L {[a] |a. a \<in> S}" unfolding in_conc by blast
qed

lemma conc_Eps: "conc A {[]} = A"
  by (auto simp: in_conc)

lemma relativeRegex_iff: "regex_test relativeRegex v \<longleftrightarrow> is_relative v"
proof (cases v)
  case Nil
  then show ?thesis by (simp add: regex_test_lang relativeRegex_def is_relative_def)
next
  case (Cons s r)
  have "r \<in> lang (Seq (Plus digit) (Seq (Atom ''dwmqy'') Eps)) \<longleftrightarrow>
        r \<noteq> [] \<and> butlast r \<noteq> [] \<and> list_all (\<lambda>c. c \<in> set digit_chars) (butlast r) \<and>
        last r \<in> set ''dwmqy''"
    by (simp add: digit_def lang_Plus_Atom conc_Eps in_conc_atoms_right list_all_iff subset_iff
          del: set_simps) blast
  moreover have "s # r \<in> lang relativeRegex \<longleftrightarrow>
      s \<in> set ''+-'' \<and> r \<in> lang (Seq (Plus digit) (Seq (Atom ''dwmqy'') Eps))"
    by (simp only: relativeRegex_def Seqs.simps lang.simps Cons_in_conc_atoms)
  ultimately show ?thesis using Cons
    by (simp only: regex_test_lang is_relative_def list.case)
qed


lemma char_class_facts:
  "list_all (\<lambda>d. d \<notin> set upper_chars \<and> d \<notin> set lower_chars) digit_chars"
  "list_all (\<lambda>u. other_case u \<in> set lower_chars \<and> u \<notin> set digit_chars) upper_chars"
  "list_all (\<lambda>c. c \<notin> set digit_chars \<and> other_case c \<notin> set digit_chars) lower_chars"
  by code_simp+

lemma norm_map:
  "lower_str (digit_shape w) =
     map (\<lambda>x. to_lower (if x \<in> set digit_chars then CHR ''0'' else x)) w"
  by (simp add: lower_str_def digit_shape_def)

lemma norm_digit:
  "to_lower (if x \<in> set digit_chars then CHR ''0'' else x) = CHR ''0'' \<longleftrightarrow> x \<in> set digit_chars"
proof (cases "x \<in> set digit_chars")
  case True
  have "CHR ''0'' \<in> set digit_chars" by (simp add: digit_chars_def)
  with char_class_facts(1) have "CHR ''0'' \<notin> set upper_chars" by (auto simp: list_all_iff)
  with True show ?thesis by (simp add: to_lower_def)
next
  case False
  have z: "CHR ''0'' \<in> set digit_chars" by (simp add: digit_chars_def)
  with char_class_facts(1) have nl: "CHR ''0'' \<notin> set lower_chars" by (auto simp: list_all_iff)
  show ?thesis
  proof (cases "x \<in> set upper_chars")
    case True
    with char_class_facts(2) have "other_case x \<in> set lower_chars" by (auto simp: list_all_iff)
    with nl have "other_case x \<noteq> CHR ''0''" by auto
    with True False show ?thesis by (simp add: to_lower_def)
  next
    case nu: False
    from False z have "x \<noteq> CHR ''0''" by auto
    with nu False show ?thesis by (simp add: to_lower_def)
  qed
qed

lemma norm_letter:
  assumes "c \<in> set lower_chars"
  shows "to_lower (if x \<in> set digit_chars then CHR ''0'' else x) = c \<longleftrightarrow>
         x = c \<or> x = other_case c"
proof (cases "x \<in> set digit_chars")
  case True
  from assms char_class_facts(3) have nd: "c \<notin> set digit_chars" "other_case c \<notin> set digit_chars"
    by (auto simp: list_all_iff)
  from True have "to_lower (if x \<in> set digit_chars then CHR ''0'' else x) = CHR ''0''"
    using norm_digit [of x] by simp
  moreover have "CHR ''0'' \<in> set digit_chars" by (simp add: digit_chars_def)
  with nd have "c \<noteq> CHR ''0''" by auto
  ultimately show ?thesis using True nd by auto
next
  case False
  then show ?thesis by (simp add: to_lower_eq [OF assms])
qed

lemma lang_lit_ci_gen:
  assumes "\<And>c x. c \<in> set s \<Longrightarrow> (f x = c) = (x = c \<or> x = other_case c)"
  shows "lang (lit_ci s) = {w. map f w = s}"
  using assms
proof (induction s)
  case Nil
  show ?case by (auto simp: lit_ci_def)
next
  case (Cons c s)
  have "lang (ch_ci c) = {w. map f w = [c]}"
    unfolding ch_ci_def by (rule lang_Atom_map) (simp add: Cons.prems)
  moreover have "lang (lit_ci s) = {w. map f w = s}"
    by (rule Cons.IH) (simp add: Cons.prems)
  ultimately have "lang (lit_ci (c # s)) = conc {w. map f w = [c]} {w. map f w = s}"
    by (simp add: lit_ci_def)
  then show ?case by (simp add: conc_map)
qed

lemma lang_Alts_ci_gen:
  assumes "\<And>s c x. s \<in> set names \<Longrightarrow> c \<in> set s \<Longrightarrow> (f x = c) = (x = c \<or> x = other_case c)"
  shows "lang (Alts (map lit_ci names)) = {w. map f w \<in> set names}"
  using assms
proof (induction names)
  case Nil
  show ?case by simp
next
  case (Cons s names)
  have "lang (lit_ci s) = {w. map f w = s}"
  proof (rule lang_lit_ci_gen)
    fix c x assume "c \<in> set s"
    then show "(f x = c) = (x = c \<or> x = other_case c)"
      using Cons.prems [of s c x] by simp
  qed
  moreover have "lang (Alts (map lit_ci names)) = {w. map f w \<in> set names}"
  proof (rule Cons.IH)
    fix t c x assume "t \<in> set names" "c \<in> set t"
    then show "(f x = c) = (x = c \<or> x = other_case c)"
      using Cons.prems [of t c x] by simp
  qed
  ultimately show ?case by auto
qed

lemma ordinalRegex_iff: "regex_test ordinalRegex v \<longleftrightarrow> is_ordinal v"
proof -
  let ?f = "\<lambda>x. to_lower (if x \<in> set digit_chars then CHR ''0'' else x)"
  have d: "lang digit = {w. map ?f w = ''0''}"
    unfolding digit_def by (rule lang_Atom_map) (rule norm_digit)
  have "lang (Alts (map lit_ci [''st'', ''nd'', ''rd'', ''th''])) =
        {w. map ?f w \<in> set [''st'', ''nd'', ''rd'', ''th'']}"
  proof (rule lang_Alts_ci_gen)
    fix s c x
    assume "s \<in> set [''st'', ''nd'', ''rd'', ''th'']" "c \<in> set s"
    then have "c \<in> set lower_chars" by (auto simp: lower_chars_def)
    then show "(?f x = c) = (x = c \<or> x = other_case c)" by (rule norm_letter)
  qed
  then have a: "lang (Alts (map lit_ci [''st'', ''nd'', ''rd'', ''th''])) =
        {w. map ?f w = ''st''} \<union> ({w. map ?f w = ''nd''} \<union>
        ({w. map ?f w = ''rd''} \<union> {w. map ?f w = ''th''}))"
    by (simp only:) auto
  have "lang ordinalRegex =
      conc {w. map ?f w = ''0''} (conc ({w. map ?f w = []} \<union> {w. map ?f w = ''0''})
        ({w. map ?f w = ''st''} \<union> ({w. map ?f w = ''nd''} \<union>
        ({w. map ?f w = ''rd''} \<union> {w. map ?f w = ''th''}))))"
    unfolding ordinalRegex_def Seqs.simps lang.simps(5) lang_Opt d a conc_Eps lang.simps(2)
    by (simp only: Nil_map [of ?f])
  also have "\<dots> = {w. map ?f w \<in>
      set [''0st'', ''0nd'', ''0rd'', ''0th'', ''00st'', ''00nd'', ''00rd'', ''00th'']}"
    by (simp only: conc_Un conc_map append.simps) auto
  finally show ?thesis
    by (simp only: regex_test_lang is_ordinal_def norm_map mem_Collect_eq)
qed

lemma parseFlexibleDate_iff:
  "parseFlexibleDate v = (if date_accepted v then Inr v else Inl (InvalidDateFormat v))"
  by (simp add: parseFlexibleDate_def date_accepted_def isoRegex_iff relativeRegex_iff
        named_iff ordinalRegex_iff)

subsection \<open>Date fields\<close>

lemma date_token_typed:
  assumes "accepts (ZOptional (ZString cs)) (get_prop args g)"
  shows "get_prop args g = JUndefined \<and> date_token args g = Inr [] \<or>
         get_prop args g = JStr [] \<and> date_token args g = Inr [] \<or>
         (\<exists>u. get_prop args g = JStr u \<and> u \<noteq> [] \<and>
            date_token args g =
              (if date_accepted u then Inr [g @ '':'' @ u] else Inl (InvalidDateFormat u)))"
  using assms by (auto simp: date_token_def parseFlexibleDate_iff)

lemma date_token_cases:
  assumes "accepts (ZOptional (ZString cs)) (get_prop args g)"
  shows "(\<exists>t. date_token args g = Inr t) \<or>
         (\<exists>w. date_token args g = Inl (InvalidDateFormat w) \<and> \<not> date_accepted w)"
  using date_token_typed [OF assms]
proof (elim disjE conjE exE)
  fix u assume "date_token args g =
      (if date_accepted u then Inr [g @ '':'' @ u] else Inl (InvalidDateFormat u))"
  then show ?thesis by (cases "date_accepted u") simp_all
qed simp_all

lemma date_token_rejects:
  assumes "get_prop args g = JStr u" "u \<noteq> []" "\<not> date_accepted u"
  shows "date_token args g = Inl (InvalidDateFormat u)"
  using assms by (simp add: date_token_def parseFlexibleDate_iff)

lemma date_token_accepts:
  assumes "get_prop args g = JStr u" "u \<noteq> []" "date_accepted u"
  shows "date_token args g = Inr [g @ '':'' @ u]"
  using assms by (simp add: date_token_def parseFlexibleDate_iff)

lemma build_Inl_source:
  "buildTaskModifyArgs args = Inl e \<Longrightarrow>
   \<exists>g\<in>set [''due'', ''start'', ''wait'', ''until'', ''scheduled'']. date_token args g = Inl e"
  unfolding buildTaskModifyArgs_def by (simp split: sum.splits)

lemma build_Inr_dates:
  assumes "buildTaskModifyArgs args = Inr toks"
    and "g \<in> set [''due'', ''start'', ''wait'', ''until'', ''scheduled'']"
  shows "\<exists>t. date_token args g = Inr t"
  using buildTaskModifyArgs_Inr [OF assms(1)] assms(2) by auto


lemma typed_dates:
  assumes "list_all (\<lambda>p. accepts (snd p) (get_prop args (fst p))) modifyFields"
    and "g \<in> set [''due'', ''start'', ''wait'', ''until'', ''scheduled'']"
  shows "accepts (ZOptional (ZString [ZMin 1])) (get_prop args g)"
  using assms by (auto simp: modifyFields_def simp del: accepts_ZOptional)

lemma build_dates:
  assumes v: "list_all (\<lambda>p. accepts (snd p) (get_prop args (fst p))) modifyFields"
  shows "if list_all (\<lambda>g. \<forall>u. get_prop args g = JStr u \<longrightarrow> date_accepted u)
              [''due'', ''start'', ''wait'', ''until'', ''scheduled'']
         then \<exists>toks. buildTaskModifyArgs args = Inr toks
         else \<exists>w. buildTaskModifyArgs args = Inl (InvalidDateFormat w) \<and> \<not> date_accepted w"
proof (cases "list_all (\<lambda>g. \<forall>u. get_prop args g = JStr u \<longrightarrow> date_accepted u)
              [''due'', ''start'', ''wait'', ''until'', ''scheduled'']")
  case True
  then have "list_all (\<lambda>f. \<forall>v. get_prop args f = JStr v \<longrightarrow> parseFlexibleDate v = Inr v)
              [''due'', ''start'', ''wait'', ''until'', ''scheduled'']"
    by (simp add: parseFlexibleDate_iff)
  from build_total [OF v this] True show ?thesis by simp
next
  case False
  then obtain g u where g: "g \<in> set [''due'', ''start'', ''wait'', ''until'', ''scheduled'']"
    and u: "get_prop args g = JStr u" "\<not> date_accepted u"
    unfolding list_all_iff by blast
  from typed_dates [OF v g] u have "u \<noteq> []" by auto
  with u have rej: "date_token args g = Inl (InvalidDateFormat u)"
    by (intro date_token_rejects)
  obtain e where e: "buildTaskModifyArgs args = Inl e"
  proof (cases "buildTaskModifyArgs args")
    case (Inl e)
    then show ?thesis by (rule that)
  next
    case (Inr toks)
    from build_Inr_dates [OF Inr g] rej show ?thesis by simp
  qed
  from build_Inl_source [OF e] obtain g' where
    g': "g' \<in> set [''due'', ''start'', ''wait'', ''until'', ''scheduled'']"
    and t: "date_token args g' = Inl e" by blast
  from date_token_cases [OF typed_dates [OF v g']] t
  obtain w where "e = InvalidDateFormat w" "\<not> date_accepted w" by auto
  with e False show ?thesis by simp
qed

lemma modify_task_Inl:
  assumes "safeParse modifyTaskRequest args \<noteq> None" "buildTaskModifyArgs args = Inl e"
  shows "modify_task args = Inl e"
proof -
  from assms(1) obtain data where d: "safeParse modifyTaskRequest args = Some data" by auto
  from build_parsed_modify [OF d] assms(2) d show ?thesis by (simp add: modify_task_def)
qed

lemma modify_tasks_bulk_Inl:
  assumes "safeParse modifyTasksBulkRequest args \<noteq> None" "buildTaskModifyArgs args = Inl e"
  shows "modify_tasks_bulk args = Inl e"
proof -
  from assms(1) obtain data where d: "safeParse modifyTasksBulkRequest args = Some data" by auto
  from build_parsed_bulk [OF d] assms(2) d show ?thesis by (simp add: modify_tasks_bulk_def)
qed

lemma modify_dates:
  assumes n: "name = ''modify_task'' \<and> shape = modifyTaskRequest \<or>
              name = ''modify_tasks_bulk'' \<and> shape = modifyTasksBulkRequest"
    and o: "\<exists>kvs. args = JObj kvs"
    and v: "list_all (\<lambda>p. accepts (snd p) (get_prop args (fst p))) shape"
    and f: "f \<in> set [''due'', ''start'', ''wait'', ''until'', ''scheduled'']"
    and p: "get_prop args f = JStr v"
  shows "if list_all (\<lambda>g. \<forall>u. get_prop args g = JStr u \<longrightarrow> date_accepted u)
              [''due'', ''start'', ''wait'', ''until'', ''scheduled'']
         then \<exists>iv pre toks. CallTool name args = Inr iv \<and>
                buildTaskModifyArgs args = Inr toks \<and>
                command iv = pre @ '' modify '' @ join '' '' toks \<and> f @ '':'' @ v \<in> set toks
         else \<exists>w. CallTool name args = Inl (InvalidDateFormat w) \<and> \<not> date_accepted w"
proof -
  from n v have m: "list_all (\<lambda>p. accepts (snd p) (get_prop args (fst p))) modifyFields"
    by (auto simp: modifyTaskRequest_def modifyTasksBulkRequest_def)
  from o v have sp: "safeParse shape args \<noteq> None"
    by (simp add: safeParse_eq del: safeParse.simps)
  from typed_dates [OF m f] p have ne: "v \<noteq> []" by auto
  show ?thesis
  proof (cases "list_all (\<lambda>g. \<forall>u. get_prop args g = JStr u \<longrightarrow> date_accepted u)
              [''due'', ''start'', ''wait'', ''until'', ''scheduled'']")
    case True
    with build_dates [OF m] obtain toks where t: "buildTaskModifyArgs args = Inr toks"
      by auto
    from f have "f \<in> set [''due'', ''start'', ''wait'', ''until'', ''scheduled'', ''priority'',
        ''project'']" by auto
    from modify_tokens_raw(1) [OF t this p ne] have tok: "f @ '':'' @ v \<in> set toks" .
    from n have "\<exists>iv pre. CallTool name args = Inr iv \<and>
        command iv = pre @ '' modify '' @ join '' '' toks"
    proof
      assume a: "name = ''modify_task'' \<and> shape = modifyTaskRequest"
      with v have "accepts (ZString [ZMin 1]) (get_prop args ''identifier'')"
        by (simp add: modifyTaskRequest_def)
      then have "\<exists>i. get_prop args ''identifier'' = JStr i \<and> i \<noteq> []"
        by (cases "get_prop args ''identifier''") (auto simp: Suc_le_eq)
      then obtain i where i: "get_prop args ''identifier'' = JStr i" "i \<noteq> []" by blast
      have "modify_task args =
          Inr \<lparr>command = ''task '' @ escapeShellArg i @ '' modify '' @ join '' '' toks,
               shell = None\<rparr>"
        unfolding modify_task_Inr using sp a i t by simp
      with a have "CallTool name args =
          Inr \<lparr>command = (''task '' @ escapeShellArg i) @ '' modify '' @ join '' '' toks,
               shell = None\<rparr>"
        by (simp add: CallTool_def)
      then show ?thesis
        by (intro exI [of _ "\<lparr>command = (''task '' @ escapeShellArg i) @ '' modify ''
              @ join '' '' toks, shell = None\<rparr>"] exI [of _ "''task '' @ escapeShellArg i"])
           simp
    next
      assume a: "name = ''modify_tasks_bulk'' \<and> shape = modifyTasksBulkRequest"
      with v have "accepts (ZString [ZMin 1]) (get_prop args ''filter'')"
        by (simp add: modifyTasksBulkRequest_def)
      then have "\<exists>i. get_prop args ''filter'' = JStr i \<and> i \<noteq> []"
        by (cases "get_prop args ''filter''") (auto simp: Suc_le_eq)
      then obtain i where i: "get_prop args ''filter'' = JStr i" "i \<noteq> []" by blast
      have "modify_tasks_bulk args =
          Inr \<lparr>command = ''yes | task '' @ i @ '' modify '' @ join '' '' toks,
               shell = Some ''/bin/bash''\<rparr>"
        unfolding modify_tasks_bulk_Inr using sp a i t by simp
      with a have "CallTool name args =
          Inr \<lparr>command = (''yes | task '' @ i) @ '' modify '' @ join '' '' toks,
               shell = Some ''/bin/bash''\<rparr>"
        by (simp add: CallTool_def)
      then show ?thesis
        by (intro exI [of _ "\<lparr>command = (''yes | task '' @ i) @ '' modify ''
              @ join '' '' toks, shell = Some ''/bin/bash''\<rparr>"] exI [of _ "''yes | task '' @ i"])
           simp
    qed
    with t tok True show ?thesis by (simp only: if_True) blast
  next
    case False
    with build_dates [OF m] obtain w where
      w: "buildTaskModifyArgs args = Inl (InvalidDateFormat w)" "\<not> date_accepted w"
      by auto
    from n have "CallTool name args = Inl (InvalidDateFormat w)"
    proof
      assume a: "name = ''modify_task'' \<and> shape = modifyTaskRequest"
      with sp w(1) have "modify_task args = Inl (InvalidDateFormat w)"
        by (intro modify_task_Inl) simp_all
      with a show ?thesis by (simp add: CallTool_def)
    next
      assume a: "name = ''modify_tasks_bulk'' \<and> shape = modifyTasksBulkRequest"
      with sp w(1) have "modify_tasks_bulk args = Inl (InvalidDateFormat w)"
        by (intro modify_tasks_bulk_Inl) simp_all
      with a show ?thesis by (simp add: CallTool_def)
    qed
    with w(2) False show ?thesis by (simp only: if_False) blast
  qed
qed

lemma add_dates:
  assumes o: "\<exists>kvs. args = JObj kvs"
    and v: "list_all (\<lambda>p. accepts (snd p) (get_prop args (fst p))) addTaskRequest"
    and p: "get_prop args ''due'' = JStr v" and ne: "v \<noteq> []"
  shows "if date_accepted v
         then \<exists>toks. add_task_args args = Inr toks \<and> ''due:'' @ v \<in> set toks \<and>
                CallTool ''add_task'' args =
                  Inr \<lparr>command = ''task '' @ join '' '' toks, shell = None\<rparr>
         else CallTool ''add_task'' args = Inl (InvalidDateFormat v)"
proof -
  from o v have sp: "safeParse addTaskRequest args \<noteq> None"
    by (simp add: safeParse_eq del: safeParse.simps)
  show ?thesis
  proof (cases "date_accepted v")
    case True
    with p ne have "date_token args ''due'' = Inr [''due:'' @ v]"
      using date_token_accepts [of args "''due''" v] by simp
    then obtain toks where t: "add_task_args args = Inr toks"
      by (simp add: add_task_args_def)
    from add_tokens(1) [OF t _ p ne] have tok: "''due:'' @ v \<in> set toks" by simp
    have "add_task args = Inr \<lparr>command = ''task '' @ join '' '' toks, shell = None\<rparr>"
      unfolding add_task_Inr using sp t by simp
    with t tok True show ?thesis by (simp add: CallTool_def)
  next
    case False
    with p ne have "date_token args ''due'' = Inl (InvalidDateFormat v)"
      by (intro date_token_rejects)
    then have e: "add_task_args args = Inl (InvalidDateFormat v)"
      by (simp add: add_task_args_def)
    have "add_task args = Inl (InvalidDateFormat v)"
    proof (cases "add_task args")
      case (Inl e')
      from sp obtain data where d: "safeParse addTaskRequest args = Some data" by auto
      have "get_prop data ''description'' = get_prop args ''description''"
       "get_prop data ''due'' = get_prop args ''due''"
       "get_prop data ''priority'' = get_prop args ''priority''"
       "get_prop data ''project'' = get_prop args ''project''"
       "get_prop data ''tags'' = get_prop args ''tags''"
        by (simp_all add: parsed_get_prop [OF d] addTaskRequest_def)
      then have "add_task_args data = add_task_args args"
        unfolding add_task_args_def date_token_def field_token_def by (simp only:)
      with d e show ?thesis by (simp add: add_task_def)
    next
      case (Inr iv)
      then show ?thesis unfolding add_task_Inr using e by simp
    qed
    with False show ?thesis by (simp add: CallTool_def)
  qed
qed




end
